theory Spec2Isabelle
  imports Complex_Main "HOL-Library.Word" "HOL-Library.Multiset"
begin

unbundle bit_operations_syntax

section \<open>JavaScript numbers that hold integers\<close>

text \<open>
  Every JavaScript number is an IEEE-754 double. The numbers of \<^verbatim>\<open>App.jsx\<close> that matter
  here hold integers, so a number is modelled by the integer it holds, and an arithmetic
  operation by the exact result rounded to 53 significant bits (round to nearest, ties to
  even). \<open>ulp_exp m\<close> is the exponent of the spacing of the doubles around \<open>m\<close>: the
  least \<open>e\<close> with \<open>m div 2 ^ e < 2 ^ 53\<close>.
\<close>

function ulp_exp :: "nat \<Rightarrow> nat" where
  "ulp_exp m = (if m < 2 ^ 53 then 0 else Suc (ulp_exp (m div 2)))"
  by pat_completeness auto
termination
  by (relation "measure id") auto

declare ulp_exp.simps [simp del]

definition round53 :: "nat \<Rightarrow> nat" where
  "round53 m =
     (let e = ulp_exp m; q = m div 2 ^ e; r = m mod 2 ^ e
      in if 2 ^ e < 2 * r \<or> (2 * r = 2 ^ e \<and> odd q) then (q + 1) * 2 ^ e else q * 2 ^ e)"

text \<open>\<^verbatim>\<open>x + y\<close> on numbers that hold integers.\<close>

definition js_add :: "int \<Rightarrow> int \<Rightarrow> int" where
  "js_add x y =
     (let s = x + y in if s < 0 then - int (round53 (nat (- s))) else int (round53 (nat s)))"

text \<open>
  The operands of \<^verbatim>\<open>^\<close>, \<^verbatim>\<open>|\<close>, \<^verbatim>\<open>>>>\<close> and \<^verbatim>\<open>Math.imul\<close> are converted with
  ToInt32/ToUint32: the integer modulo \<open>2 ^ 32\<close>. \<^verbatim>\<open>Math.imul\<close> keeps the low 32 bits of
  the product.
\<close>

definition ToInt32 :: "int \<Rightarrow> 32 word" where
  "ToInt32 x = word_of_int x"

definition imul :: "32 word \<Rightarrow> 32 word \<Rightarrow> 32 word" where
  "imul a b = a * b"

section \<open>The deterministic shuffle engine\<close>

subsection \<open>\<^verbatim>\<open>seededRandom\<close>\<close>

text \<open>
  \<^verbatim>\<open>
  function seededRandom(seed) {
    return function() {
      var t = seed += 0x6D2B79F5;
      t = Math.imul(t ^ t >>> 15, t | 1);
      t ^= t + Math.imul(t ^ t >>> 7, t | 61);
      return ((t ^ t >>> 14) >>> 0) / 4294967296;
    }
  }
  \<close>
  The closure's only state is the captured variable \<^verbatim>\<open>seed\<close>, a number: the model passes
  it in and returns it updated. \<^verbatim>\<open>seed += 0x6D2B79F5\<close> is an addition of numbers
  (\<open>js_add\<close>); the three lines after it work on 32-bit values. In the third line
  \<^verbatim>\<open>t + Math.imul(..)\<close> adds two signed 32-bit values as numbers (exactly: the sum is
  below \<open>2 ^ 32\<close> in magnitude) and \<^verbatim>\<open>^\<close> converts the sum with ToInt32.
  \<open>seededRandom_bits\<close> is the unsigned 32-bit value \<^verbatim>\<open>(t ^ t >>> 14) >>> 0\<close>; the call
  returns it divided by \<open>2 ^ 32\<close>, which a double holds exactly.
\<close>

definition mix32 :: "32 word \<Rightarrow> 32 word" where
  "mix32 t0 =
     (let t1 = imul (t0 XOR drop_bit 15 t0) (t0 OR 1);
          t2 = t1 XOR ToInt32 (sint t1 + sint (imul (t1 XOR drop_bit 7 t1) (t1 OR 61)))
      in t2 XOR drop_bit 14 t2)"

definition seededRandom_bits :: "int \<Rightarrow> 32 word \<times> int" where
  "seededRandom_bits seed =
     (let seed' = js_add seed 0x6D2B79F5 in (mix32 (ToInt32 seed'), seed'))"

definition seededRandom_next :: "int \<Rightarrow> real \<times> int" where
  "seededRandom_next seed =
     (let (u, seed') = seededRandom_bits seed in (real (unat u) / 4294967296, seed'))"

text \<open>The captured variable after \<open>n\<close> calls, and the value the call number \<open>n\<close> (from 0) returns.\<close>

fun seed_after :: "nat \<Rightarrow> int \<Rightarrow> int" where
  "seed_after 0 seed = seed"
| "seed_after (Suc n) seed = seed_after n (snd (seededRandom_bits seed))"

definition nth_bits :: "int \<Rightarrow> nat \<Rightarrow> 32 word" where
  "nth_bits seed n = fst (seededRandom_bits (seed_after n seed))"

definition nth_random :: "int \<Rightarrow> nat \<Rightarrow> real" where
  "nth_random seed n = fst (seededRandom_next (seed_after n seed))"

subsection \<open>The generator in 32-bit wrap-around arithmetic\<close>

text \<open>
  The generator as section 4.1 of the specification words it: the state is a 32-bit
  integer and every step, the increment of the state included, wraps modulo \<open>2 ^ 32\<close>.
\<close>

definition wrap32_next :: "32 word \<Rightarrow> 32 word \<times> 32 word" where
  "wrap32_next a = (let a' = a + 0x6D2B79F5 in (mix32 a', a'))"

fun wrap32_after :: "nat \<Rightarrow> 32 word \<Rightarrow> 32 word" where
  "wrap32_after 0 a = a"
| "wrap32_after (Suc n) a = wrap32_after n (snd (wrap32_next a))"

definition wrap32_nth :: "int \<Rightarrow> nat \<Rightarrow> real" where
  "wrap32_nth seed n =
     real (unat (fst (wrap32_next (wrap32_after n (word_of_int seed))))) / 4294967296"

subsection \<open>\<^verbatim>\<open>getMasterPuzzleList\<close>\<close>

text \<open>
  A puzzle of \<^verbatim>\<open>puzzles.json\<close>. The pool is data that \<^verbatim>\<open>App.jsx\<close> imports, and a
  parameter of every function that reads it. The field \<^verbatim>\<open>id\<close> is named \<open>ident\<close>
  and the field \<^verbatim>\<open>text\<close> is named \<open>body\<close>; a field the JSON object lacks is \<open>None\<close>.
\<close>

record puzzle =
  ident :: int
  title :: string
  body :: string
  hint :: string
  answer :: "string option"
  answerHash :: "string option"

text \<open>
  \<^verbatim>\<open>Math.floor(random() * (i + 1))\<close>, with \<open>u\<close> the 32-bit value behind the random number
  and \<open>n = i + 1\<close>. The random number is the double \<open>u / 2 ^ 32\<close>, and its product with the
  integer \<open>n\<close> is the real number \<open>u * n / 2 ^ 32\<close> rounded to 53 significant bits;
  the factor \<open>2 ^ 32\<close> only moves the exponent, so the rounding is that of \<open>u * n\<close>.
\<close>

definition Math_floor_times :: "32 word \<Rightarrow> nat \<Rightarrow> nat" where
  "Math_floor_times u n = round53 (unat u * n) div 4294967296"

text \<open>
  \<^verbatim>\<open>[ids[i], ids[j]] = [ids[j], ids[i]]\<close>: both elements are read, then \<^verbatim>\<open>ids[i]\<close> and
  \<^verbatim>\<open>ids[j]\<close> are written in this order. The loop only calls it with
  \<open>j \<le> i < length ids\<close> (lemma \<open>Math_floor_times_less\<close>), where no write extends
  the array.
\<close>

definition swap_at :: "nat \<Rightarrow> nat \<Rightarrow> 'a list \<Rightarrow> 'a list" where
  "swap_at i j ids = ids[i := ids ! j, j := ids ! i]"

text \<open>
  \<^verbatim>\<open>
  const getMasterPuzzleList = () => {
    const random = seededRandom(42);
    let ids = puzzles.map(p => p.id);
    for (let i = ids.length - 1; i > 0; i--) {
      const j = Math.floor(random() * (i + 1));
      [ids[i], ids[j]] = [ids[j], ids[i]];
    }
    return ids;
  };
  const masterPuzzleList = getMasterPuzzleList();
  \<close>
  \<open>shuffle_loop i seed ids\<close> is the \<^verbatim>\<open>for\<close> loop from index \<open>i\<close> on, with the closure's
  variable \<open>seed\<close> and the array passed along. On the empty pool the source starts at
  \<open>i = -1\<close> and the model at \<open>i = 0\<close>: neither enters the loop. The seed, which the source
  fixes to 42, is a parameter of \<open>getMasterPuzzleList\<close>; \<open>masterPuzzleList\<close> fixes it.
\<close>

fun shuffle_loop :: "nat \<Rightarrow> int \<Rightarrow> 'a list \<Rightarrow> 'a list" where
  "shuffle_loop i seed ids =
     (if 0 < i
      then let (u, seed') = seededRandom_bits seed;
               j = Math_floor_times u (i + 1)
           in shuffle_loop (i - 1) seed' (swap_at i j ids)
      else ids)"

declare shuffle_loop.simps [simp del]

definition getMasterPuzzleList :: "int \<Rightarrow> puzzle list \<Rightarrow> int list" where
  "getMasterPuzzleList seed puzzles =
     (let ids = map ident puzzles in shuffle_loop (length ids - 1) seed ids)"

definition masterPuzzleList :: "puzzle list \<Rightarrow> int list" where
  "masterPuzzleList puzzles = getMasterPuzzleList 42 puzzles"

text \<open>
  The shuffle as section 4.2 of the specification words it: the index \<open>i\<close> runs from
  \<open>length - 1\<close> down to \<open>1\<close>; step number \<open>length - 1 - i\<close> draws the next number of the
  generator, computes \<open>j = floor (r * (i + 1))\<close> and swaps the positions \<open>i\<close> and \<open>j\<close>.
  \<open>draw k\<close> is the 32-bit value behind the generator's output number \<open>k\<close>.
\<close>

definition fisher_yates_spec :: "(nat \<Rightarrow> 32 word) \<Rightarrow> 'a list \<Rightarrow> 'a list" where
  "fisher_yates_spec draw ids =
     fold (\<lambda>i xs. swap_at i (Math_floor_times (draw (length ids - 1 - i)) (i + 1)) xs)
       (rev [1..<length ids]) ids"

section \<open>The day index and the daily set\<close>

subsection \<open>\<^verbatim>\<open>getDayIndex\<close>\<close>

text \<open>
  \<^verbatim>\<open>
  const getDayIndex = () => {
    const epoch = new Date('2024-01-01T00:00:00').getTime();
    const today = new Date();
    today.setHours(0, 0, 0, 0);
    return Math.floor((today.getTime() - epoch) / 86400000);
  };
  \<close>
  Time values are milliseconds since 1970-01-01T00:00:00Z. The clock (\<open>now\<close>) and the
  host's time zone are inputs. A time zone is the pair of conversions ECMAScript names
  \<open>LocalTime\<close> (from a UTC time value to the local one) and \<open>UTC\<close> (back).
  A date-time string without an offset is local time, so the epoch is \<open>UTC\<close> of the
  local time value of 2024-01-01T00:00:00, which is 1704067200000.
  \<^verbatim>\<open>setHours(0, 0, 0, 0)\<close> converts to local time, keeps the day and converts back.
  The difference of two time values is exact. The quotient is below \<open>2 ^ 27\<close> in
  magnitude for every time value a Date can hold; there a double is at most \<open>2 ^ -26\<close>
  from its neighbours, less than twice \<open>1 / 86400000\<close>, so that rounding the quotient
  never reaches the next integer and \<^verbatim>\<open>Math.floor\<close> of the rounded quotient is the
  integer quotient \<open>div\<close>.
\<close>

record timezone =
  LocalTime :: "int \<Rightarrow> int"
  UTC :: "int \<Rightarrow> int"

definition msPerDay :: int where
  "msPerDay = 86400000"

definition setHours0 :: "timezone \<Rightarrow> int \<Rightarrow> int" where
  "setHours0 tz t = UTC tz ((LocalTime tz t div msPerDay) * msPerDay)"

definition getDayIndex :: "timezone \<Rightarrow> int \<Rightarrow> int" where
  "getDayIndex tz now =
     (let epoch = UTC tz 1704067200000;
          today = setHours0 tz now
      in (today - epoch) div 86400000)"

text \<open>A zone whose clocks always differ from UTC by \<open>offset\<close> milliseconds.\<close>

definition fixed_offset :: "int \<Rightarrow> timezone" where
  "fixed_offset offset = \<lparr>LocalTime = (\<lambda>t. t + offset), UTC = (\<lambda>l. l - offset)\<rparr>"

text \<open>
  The zone America/New York during 2024: five hours behind UTC, four hours behind
  between 2024-03-10T07:00:00Z (1710054000000) and 2024-11-03T06:00:00Z (1730613600000).
  A local time value is read with daylight time from 03:00 on 10 March (1710039600000)
  up to 02:00 on 3 November (1730599200000); the hour the clocks skip is read with the
  offset before the change and the hour they repeat with the earlier instant, as
  ECMAScript has it.
\<close>

definition new_york_2024 :: timezone where
  "new_york_2024 =
     \<lparr>LocalTime = (\<lambda>t. if 1710054000000 \<le> t \<and> t < 1730613600000
                         then t - 14400000 else t - 18000000),
      UTC = (\<lambda>l. if 1710039600000 \<le> l \<and> l < 1730599200000
                   then l + 14400000 else l + 18000000)\<rparr>"

subsection \<open>\<^verbatim>\<open>getTodaysPuzzles\<close>\<close>

text \<open>
  \<^verbatim>\<open>
  const getTodaysPuzzles = () => {
    const dayIndex = getDayIndex();
    const todaysIds = [];
    for (let i = 0; i < 5; i++) {
      const index = (dayIndex * 5 + i) % masterPuzzleList.length;
      todaysIds.push(masterPuzzleList[index]);
    }
    return todaysIds;
  };
  \<close>
  \<^verbatim>\<open>%\<close> takes the sign of the dividend and is \<^verbatim>\<open>NaN\<close> (\<open>None\<close>) for the divisor 0.
  Reading an array at \<^verbatim>\<open>NaN\<close>, at a negative index or past the end gives
  \<^verbatim>\<open>undefined\<close> (\<open>None\<close>).
\<close>

definition js_rem :: "int \<Rightarrow> int \<Rightarrow> int option" where
  "js_rem a b = (if b = 0 then None else Some (sgn a * (\<bar>a\<bar> mod \<bar>b\<bar>)))"

definition index_at :: "'a list \<Rightarrow> int \<Rightarrow> 'a option" where
  "index_at xs i = (if 0 \<le> i \<and> i < int (length xs) then Some (xs ! nat i) else None)"

text \<open>The element that the step \<open>i\<close> of the loop pushes.\<close>

definition todays_slot :: "int \<Rightarrow> 'a list \<Rightarrow> nat \<Rightarrow> 'a option" where
  "todays_slot dayIndex order i =
     (case js_rem (dayIndex * 5 + int i) (int (length order)) of
        None \<Rightarrow> None
      | Some index \<Rightarrow> index_at order index)"

function todays_loop :: "int \<Rightarrow> 'a list \<Rightarrow> nat \<Rightarrow> 'a option list \<Rightarrow> 'a option list" where
  "todays_loop dayIndex order i todaysIds =
     (if i < 5
      then todays_loop dayIndex order (i + 1) (todaysIds @ [todays_slot dayIndex order i])
      else todaysIds)"
  by pat_completeness auto
termination
  by (relation "measure (\<lambda>(dayIndex, order, i, todaysIds). 5 - i)") auto

declare todays_loop.simps [simp del]

definition todaysIds_of :: "int \<Rightarrow> 'a list \<Rightarrow> 'a option list" where
  "todaysIds_of dayIndex order = todays_loop dayIndex order 0 []"

definition getTodaysPuzzles :: "timezone \<Rightarrow> int \<Rightarrow> puzzle list \<Rightarrow> int option list" where
  "getTodaysPuzzles tz now puzzles = todaysIds_of (getDayIndex tz now) (masterPuzzleList puzzles)"

section \<open>Verifying a guess\<close>

text \<open>
  A string is a list of code units below 256 (the Latin-1 part of UTF-16), which
  \<open>string\<close> holds; code units from 256 on are outside the model.
  \<^verbatim>\<open>toLowerCase\<close> maps \<open>A\<close> to \<open>Z\<close> and the capital letters of Latin-1 (192 to 222
  but the multiplication sign 215) 32 code units up; \<^verbatim>\<open>\s\<close> matches tab, line feed,
  vertical tab, form feed, carriage return, space and the no-break space.
\<close>

definition toLowerCase_unit :: "char \<Rightarrow> char" where
  "toLowerCase_unit c =
     (let n = (of_char c :: nat)
      in if (65 \<le> n \<and> n \<le> 90) \<or> (192 \<le> n \<and> n \<le> 214) \<or> (216 \<le> n \<and> n \<le> 222)
         then char_of (n + 32) else c)"

definition toLowerCase :: "string \<Rightarrow> string" where
  "toLowerCase s = map toLowerCase_unit s"

definition is_whitespace :: "char \<Rightarrow> bool" where
  "is_whitespace c = ((of_char c :: nat) \<in> set [9, 10, 11, 12, 13, 32, 160])"

text \<open>\<^verbatim>\<open>guess.toLowerCase().replace(/\s/g, '')\<close>\<close>

definition cleanGuess_of :: "string \<Rightarrow> string" where
  "cleanGuess_of guess = filter (\<lambda>c. \<not> is_whitespace c) (toLowerCase guess)"

text \<open>
  \<^verbatim>\<open>
  async function hashGuess(text) {
    try {
      const encoder = new TextEncoder();
      const data = encoder.encode(text);
      const hashBuffer = await crypto.subtle.digest('SHA-256', data);
      const hashArray = Array.from(new Uint8Array(hashBuffer));
      return hashArray.map(b => b.toString(16).padStart(2, '0')).join('');
    } catch (error) {
      return "error";
    }
  }
  \<close>
  The platform's encoder and digest are a parameter \<open>digest\<close>, from the text to the bytes
  of its digest, with \<open>None\<close> when anything in the \<^verbatim>\<open>try\<close> block throws.
\<close>

type_synonym digest = "string \<Rightarrow> 8 word list option"

definition hex_digit :: "nat \<Rightarrow> char" where
  "hex_digit n = ''0123456789abcdef'' ! n"

definition hex_byte :: "8 word \<Rightarrow> string" where
  "hex_byte b = [hex_digit (unat b div 16), hex_digit (unat b mod 16)]"

definition hashGuess :: "digest \<Rightarrow> string \<Rightarrow> string" where
  "hashGuess digest txt =
     (case digest txt of
        Some hashArray \<Rightarrow> concat (map hex_byte hashArray)
      | None \<Rightarrow> ''error'')"

text \<open>
  \<^verbatim>\<open>
  const cleanGuess = guess.toLowerCase().replace(/\s/g, '');
  ...
  const hashedInput = await hashGuess(cleanGuess);
  const isCorrect = currentPuzzle.answerHash ? hashedInput === currentPuzzle.answerHash
                                             : cleanGuess === currentPuzzle.answer;
  \<close>
  The condition of \<^verbatim>\<open>? :\<close> is the truthiness of \<^verbatim>\<open>answerHash\<close>: a missing field and the
  empty string are falsy.
\<close>

definition truthy :: "string option \<Rightarrow> bool" where
  "truthy v = (case v of None \<Rightarrow> False | Some s \<Rightarrow> s \<noteq> [])"

definition isCorrect :: "digest \<Rightarrow> string \<Rightarrow> puzzle \<Rightarrow> bool" where
  "isCorrect digest guess currentPuzzle =
     (let cleanGuess = cleanGuess_of guess;
          hashedInput = hashGuess digest cleanGuess
      in if truthy (answerHash currentPuzzle)
         then answerHash currentPuzzle = Some hashedInput
         else answer currentPuzzle = Some cleanGuess)"

text \<open>
  The comparison section 4.5 of the specification words for a stored digest: equal as
  hexadecimal numerals, whatever the case of the letters.
\<close>

definition hex_equal_ignoring_case :: "string \<Rightarrow> string \<Rightarrow> bool" where
  "hex_equal_ignoring_case a b = (toLowerCase a = toLowerCase b)"

text \<open>A stored digest that is well formed: hexadecimal digits only, and at least one.\<close>

definition is_hex_char :: "char \<Rightarrow> bool" where
  "is_hex_char c = (c \<in> set ''0123456789abcdefABCDEF'')"

definition is_hex_digest :: "string \<Rightarrow> bool" where
  "is_hex_digest h = (h \<noteq> [] \<and> list_all is_hex_char h)"

section \<open>Numbers and arrays as strings\<close>

text \<open>
  \<^verbatim>\<open>localStorage\<close> holds strings. \<open>Number_toString\<close> is the decimal numeral that
  \<^verbatim>\<open>setItem\<close> and \<^verbatim>\<open>JSON.stringify\<close> write for a number that holds an integer of
  magnitude up to \<open>2 ^ 53\<close>: all the digits of the integer. For a larger number
  JavaScript writes the shortest digits that read back as the same double, followed by
  zeros (and the exponent form from \<open>10 ^ 21\<close> on); such numbers are outside what
  \<open>Number_toString\<close> describes. \<open>JSON_stringify\<close> is what \<^verbatim>\<open>JSON.stringify\<close> writes for an
  array of numbers in that range.
\<close>

definition digit_char :: "nat \<Rightarrow> char" where
  "digit_char n = char_of (48 + n)"

function string_of_nat :: "nat \<Rightarrow> string" where
  "string_of_nat n =
     (if n < 10 then [digit_char n] else string_of_nat (n div 10) @ [digit_char (n mod 10)])"
  by pat_completeness auto
termination
  by (relation "measure id") auto

declare string_of_nat.simps [simp del]

definition Number_toString :: "int \<Rightarrow> string" where
  "Number_toString n = (if n < 0 then CHR ''-'' # string_of_nat (nat (- n)) else string_of_nat (nat n))"

fun join_comma :: "string list \<Rightarrow> string" where
  "join_comma [] = []"
| "join_comma [x] = x"
| "join_comma (x # y # ys) = x @ CHR '','' # join_comma (y # ys)"

definition JSON_stringify :: "int list \<Rightarrow> string" where
  "JSON_stringify xs = CHR ''['' # join_comma (map Number_toString xs) @ '']''"

text \<open>
  \<^verbatim>\<open>parseInt(v, 10)\<close>: \<^verbatim>\<open>null\<close> is read as the string \<^verbatim>\<open>"null"\<close>; leading white space
  is skipped, a sign is read, and the longest run of digits that follows is the value;
  with no digit the result is \<^verbatim>\<open>NaN\<close> (\<open>None\<close>). The value is the number nearest to
  the integer the digits denote: that integer below \<open>2 ^ 53\<close>, and rounded to 53 bits
  from there on. Two cases are outside this definition: a run of more than 20 digits,
  of which a host may read only the first 20, and a value from \<open>2 ^ 1024\<close> on, which is
  \<^verbatim>\<open>Infinity\<close>.
\<close>

definition is_digit :: "char \<Rightarrow> bool" where
  "is_digit c = (48 \<le> (of_char c :: nat) \<and> (of_char c :: nat) \<le> 57)"

definition digits_value :: "string \<Rightarrow> nat" where
  "digits_value ds = foldl (\<lambda>n c. 10 * n + ((of_char c :: nat) - 48)) 0 ds"

definition parseInt :: "string option \<Rightarrow> int option" where
  "parseInt v =
     (let s = dropWhile is_whitespace (case v of None \<Rightarrow> ''null'' | Some s \<Rightarrow> s);
          (negative, r) =
            (case s of
               [] \<Rightarrow> (False, s)
             | c # r \<Rightarrow> if c = CHR ''-'' then (True, r) else if c = CHR ''+'' then (False, r) else (False, s));
          ds = takeWhile is_digit r
      in if ds = [] then None
         else Some (if negative then - int (round53 (digits_value ds))
                    else int (round53 (digits_value ds))))"

text \<open>\<^verbatim>\<open>parseInt(..) || 0\<close>: \<^verbatim>\<open>NaN\<close> and 0 are falsy.\<close>

definition or0 :: "int option \<Rightarrow> int" where
  "or0 v = (case v of None \<Rightarrow> 0 | Some n \<Rightarrow> n)"

text \<open>
  \<^verbatim>\<open>JSON.parse\<close> is the host's, and a parameter of the model: from the text to the value
  read, with \<open>None\<close> when it throws a \<^verbatim>\<open>SyntaxError\<close>. Of the value the program only
  uses whether it is an array of integers, falsy (\<^verbatim>\<open>null\<close>, \<^verbatim>\<open>false\<close>, \<^verbatim>\<open>0\<close>, \<^verbatim>\<open>""\<close>) or
  anything else.
\<close>

datatype parsed = Array_of_ints "int list" | Falsy_value | Other_value

type_synonym json_parser = "string \<Rightarrow> parsed option"

text \<open>
  What the proofs about reloading assume of the host's parser: it reads \<^verbatim>\<open>null\<close>, and it
  reads back the arrays that \<^verbatim>\<open>JSON.stringify\<close> writes for integers of magnitude below
  \<open>2 ^ 53\<close>, which a number holds exactly.
\<close>

definition reads_back :: "json_parser \<Rightarrow> bool" where
  "reads_back JSON_parse =
     (JSON_parse ''null'' = Some Falsy_value \<and>
      (\<forall>xs. list_all (\<lambda>x. \<bar>x\<bar> < 2 ^ 53) xs \<longrightarrow>
            JSON_parse (JSON_stringify xs) = Some (Array_of_ints xs)))"

text \<open>
  An instance of the parameter, for evaluation: a parser of \<^verbatim>\<open>null\<close> and of the arrays
  \<^verbatim>\<open>JSON.stringify\<close> writes for integers, which answers every other text with a
  \<^verbatim>\<open>SyntaxError\<close>. It agrees with \<^verbatim>\<open>JSON.parse\<close> on \<^verbatim>\<open>null\<close>, on the arrays that
  \<^verbatim>\<open>JSON.stringify\<close> writes for integers of magnitude below \<open>2 ^ 53\<close>, and on every text
  that is not JSON.
\<close>

fun split_commas :: "string \<Rightarrow> string list" where
  "split_commas [] = [[]]"
| "split_commas (c # cs) =
     (if c = CHR '','' then [] # split_commas cs
      else (case split_commas cs of [] \<Rightarrow> [[c]] | p # ps \<Rightarrow> (c # p) # ps))"

definition int_literal :: "string \<Rightarrow> int option" where
  "int_literal s =
     (let (negative, ds) = (case s of [] \<Rightarrow> (False, s) | c # r \<Rightarrow> if c = CHR ''-'' then (True, r) else (False, s))
      in if ds \<noteq> [] \<and> list_all is_digit ds \<and> (length ds = 1 \<or> hd ds \<noteq> CHR ''0'')
         then Some (if negative then - int (digits_value ds) else int (digits_value ds))
         else None)"

definition those_ints :: "int option list \<Rightarrow> int list option" where
  "those_ints vs = (if list_all (\<lambda>v. v \<noteq> None) vs then Some (map the vs) else None)"

definition JSON_parse_written :: json_parser where
  "JSON_parse_written s =
     (if s = ''null'' then Some Falsy_value
      else if s = ''[]'' then Some (Array_of_ints [])
      else if 2 \<le> length s \<and> hd s = CHR ''['' \<and> last s = CHR '']''
      then map_option Array_of_ints (those_ints (map int_literal (split_commas (butlast (tl s)))))
      else None)"

section \<open>The session: state, storage, loading and submitting\<close>

text \<open>
  The state of the component \<^verbatim>\<open>App\<close> that the game logic reads and writes (the fields
  that only drive the display are left out), and the four keys of \<^verbatim>\<open>localStorage\<close>:
  \<^verbatim>\<open>gchq-date\<close>, \<^verbatim>\<open>gchq-puzzles-today\<close>, \<^verbatim>\<open>gchq-score\<close> and \<^verbatim>\<open>gchq-history\<close>, each
  absent (\<open>None\<close>) or a string. The score history in memory is an array of integers, or
  \<open>Foreign\<close>: some other value that \<^verbatim>\<open>JSON.parse\<close> found in the storage.
\<close>

datatype gameState = Landing | Rules | Playing | Done_for_day

datatype status = Idle | Checking | Success | Error

datatype history = Scores "int list" | Foreign

datatype exn = SyntaxError | TypeError | Foreign_history

record app =
  gameState :: gameState
  puzzlesToday :: int
  score :: int
  scoreHistory :: history
  todaysPuzzles :: "int option list"
  guess :: string
  status :: status
  showHint :: bool
  attempts :: int

record storage =
  gchq_date :: "string option"
  gchq_puzzles_today :: "string option"
  gchq_score :: "string option"
  gchq_history :: "string option"

definition initial_app :: app where
  "initial_app =
     \<lparr>gameState = Landing, puzzlesToday = 0, score = 0, scoreHistory = Scores [],
      todaysPuzzles = [], guess = [], status = Idle, showHint = False, attempts = 0\<rparr>"

definition empty_storage :: storage where
  "empty_storage =
     \<lparr>gchq_date = None, gchq_puzzles_today = None, gchq_score = None, gchq_history = None\<rparr>"

subsection \<open>The effect that loads the session\<close>

text \<open>
  \<^verbatim>\<open>
  useEffect(() => {
    const todayStr = new Date().toDateString();
    const savedDate = localStorage.getItem('gchq-date');
    const loadedPuzzles = getTodaysPuzzles();
    let savedPuzzlesToday = parseInt(localStorage.getItem('gchq-puzzles-today'), 10) || 0;
    let savedScore = parseInt(localStorage.getItem('gchq-score'), 10) || 0;
    let savedHistory = JSON.parse(localStorage.getItem('gchq-history')) || [];

    if (savedDate !== todayStr) {
      savedPuzzlesToday = 0; savedScore = 0; savedHistory = [];
      localStorage.setItem('gchq-date', todayStr);
      localStorage.setItem('gchq-puzzles-today', '0');
      localStorage.setItem('gchq-score', '0');
      localStorage.setItem('gchq-history', JSON.stringify([]));
    }

    setTodaysPuzzles(loadedPuzzles);
    setPuzzlesToday(savedPuzzlesToday);
    setScore(savedScore);
    setScoreHistory(savedHistory);

    if (savedPuzzlesToday >= 5) setGameState('done_for_day');
    else if (savedPuzzlesToday > 0) setGameState('playing');
  }, []);
  \<close>
  The date string of today and today's puzzles are inputs. \<^verbatim>\<open>JSON.parse\<close> is given
  \<^verbatim>\<open>null\<close> for an absent key and reads it as the text \<^verbatim>\<open>null\<close>. When it throws, the
  effect ends there (\<open>Inl SyntaxError\<close>): nothing is stored and no state is set.
\<close>

definition history_text :: "storage \<Rightarrow> string" where
  "history_text store = (case gchq_history store of None \<Rightarrow> ''null'' | Some s \<Rightarrow> s)"

definition or_empty :: "parsed \<Rightarrow> history" where
  "or_empty v =
     (case v of Array_of_ints xs \<Rightarrow> Scores xs | Falsy_value \<Rightarrow> Scores [] | Other_value \<Rightarrow> Foreign)"

definition reset_storage :: "string \<Rightarrow> storage" where
  "reset_storage todayStr =
     \<lparr>gchq_date = Some todayStr, gchq_puzzles_today = Some ''0'', gchq_score = Some ''0'',
      gchq_history = Some (JSON_stringify [])\<rparr>"

definition load ::
  "json_parser \<Rightarrow> string \<Rightarrow> int option list \<Rightarrow> storage \<Rightarrow> app \<Rightarrow> exn + (storage \<times> app)" where
  "load JSON_parse todayStr loadedPuzzles store st =
     (let savedDate = gchq_date store;
          savedPuzzlesToday = or0 (parseInt (gchq_puzzles_today store));
          savedScore = or0 (parseInt (gchq_score store))
      in case JSON_parse (history_text store) of
           None \<Rightarrow> Inl SyntaxError
         | Some v \<Rightarrow>
             (let savedHistory = or_empty v;
                  (savedPuzzlesToday, savedScore, savedHistory, store') =
                    (if savedDate = Some todayStr
                     then (savedPuzzlesToday, savedScore, savedHistory, store)
                     else (0, 0, Scores [], reset_storage todayStr))
              in Inr (store',
                   st\<lparr>todaysPuzzles := loadedPuzzles,
                      puzzlesToday := savedPuzzlesToday,
                      score := savedScore,
                      scoreHistory := savedHistory,
                      gameState :=
                        (if 5 \<le> savedPuzzlesToday then Done_for_day
                         else if 0 < savedPuzzlesToday then Playing
                         else gameState st)\<rparr>)))"

subsection \<open>\<^verbatim>\<open>handleSubmit\<close>\<close>

text \<open>
  \<^verbatim>\<open>
  const handleSubmit = async (e) => {
    e.preventDefault();
    if (!guess || status === 'checking' || status === 'success') return;
    setStatus('checking');
    const cleanGuess = guess.toLowerCase().replace(/\s/g, '');
    const currentPuzzleId = todaysPuzzles[puzzlesToday];
    const currentPuzzle = puzzles.find(p => p.id === currentPuzzleId);
    const hashedInput = await hashGuess(cleanGuess);
    const isCorrect = currentPuzzle.answerHash ? hashedInput === currentPuzzle.answerHash
                                               : cleanGuess === currentPuzzle.answer;
    setTimeout(() => {
      if (isCorrect) {
        sfx.success(); setStatus('success');
        const pointsEarned = showHint ? 0
          : (attempts === 0 ? 100 : (attempts === 1 ? 75 : (attempts === 2 ? 50 : 25)));
        const newScore = score + pointsEarned;
        const newHistory = [...scoreHistory, pointsEarned];
        const newPuzzlesToday = puzzlesToday + 1;
        localStorage.setItem('gchq-score', newScore);
        localStorage.setItem('gchq-history', JSON.stringify(newHistory));
        localStorage.setItem('gchq-puzzles-today', newPuzzlesToday);
        setTimeout(() => {
          setScore(newScore); setScoreHistory(newHistory); setPuzzlesToday(newPuzzlesToday);
          setGuess(''); setShowHint(false); setAttempts(0); setStatus('idle');
          if (newPuzzlesToday >= 5) setGameState('done_for_day');
        }, 1500);
      } else {
        sfx.error(); setStatus('error'); setAttempts(prev => prev + 1);
        setTimeout(() => { setStatus('idle'); setGuess(''); }, 800);
      }
    }, 400);
  };
  \<close>
  The handler reads the state of the render that created it. \<open>handleSubmit\<close> is the
  whole submission when the page takes no other event before its two timers have fired:
  its result is the storage after the first timer, the status shown between the two
  timers, and the state after the second timer. The three parts of the handler, with the
  events that can fall between them, follow below. When no puzzle has the current id,
  \<^verbatim>\<open>currentPuzzle.answerHash\<close> throws a \<^verbatim>\<open>TypeError\<close>. A \<open>Foreign\<close> score history is not
  followed further (\<open>Inl Foreign_history\<close>): what the spread makes of it depends on the
  value.
\<close>

definition pointsEarned_of :: "bool \<Rightarrow> int \<Rightarrow> int" where
  "pointsEarned_of hintShown n =
     (if hintShown then 0
      else if n = 0 then 100 else if n = 1 then 75 else if n = 2 then 50 else 25)"

definition currentPuzzle_of :: "puzzle list \<Rightarrow> app \<Rightarrow> puzzle option" where
  "currentPuzzle_of puzzles st =
     (case index_at (todaysPuzzles st) (puzzlesToday st) of
        Some (Some currentPuzzleId) \<Rightarrow> find (\<lambda>p. ident p = currentPuzzleId) puzzles
      | _ \<Rightarrow> None)"

definition handleSubmit ::
  "digest \<Rightarrow> puzzle list \<Rightarrow> storage \<Rightarrow> app \<Rightarrow> exn + (storage \<times> status \<times> app)" where
  "handleSubmit digest puzzles store st =
     (if guess st = [] \<or> status st = Checking \<or> status st = Success
      then Inr (store, status st, st)
      else case currentPuzzle_of puzzles st of
        None \<Rightarrow> Inl TypeError
      | Some currentPuzzle \<Rightarrow>
          if isCorrect digest (guess st) currentPuzzle
          then
            (let pointsEarned = pointsEarned_of (showHint st) (attempts st);
                 newScore = js_add (score st) pointsEarned;
                 newPuzzlesToday = js_add (puzzlesToday st) 1
             in case scoreHistory st of
                  Foreign \<Rightarrow> Inl Foreign_history
                | Scores h \<Rightarrow>
                    (let newHistory = h @ [pointsEarned]
                     in Inr (store\<lparr>gchq_score := Some (Number_toString newScore),
                                  gchq_history := Some (JSON_stringify newHistory),
                                  gchq_puzzles_today := Some (Number_toString newPuzzlesToday)\<rparr>,
                             Success,
                             st\<lparr>score := newScore,
                                scoreHistory := Scores newHistory,
                                puzzlesToday := newPuzzlesToday,
                                guess := [],
                                showHint := False,
                                attempts := 0,
                                status := Idle,
                                gameState :=
                                  (if 5 \<le> newPuzzlesToday then Done_for_day else gameState st)\<rparr>)))
          else Inr (store, Error,
                 st\<lparr>attempts := js_add (attempts st) 1, status := Idle, guess := []\<rparr>))"

subsection \<open>The submission, timer by timer\<close>

text \<open>
  The handler runs in three parts, and the page takes other events between them. The
  first part ends when the first timer is set: the guard, \<^verbatim>\<open>setStatus('checking')\<close>, and
  the verdict \<^verbatim>\<open>isCorrect\<close>, computed from the guess and the puzzle of the render that
  created the handler. What the two callbacks read later, \<^verbatim>\<open>showHint\<close>, \<^verbatim>\<open>attempts\<close>,
  \<^verbatim>\<open>score\<close>, \<^verbatim>\<open>scoreHistory\<close> and \<^verbatim>\<open>puzzlesToday\<close>, are the constants of that same
  render: the closure is the state at the submission together with the verdict. The
  setters act on the state the page has when they run, and \<^verbatim>\<open>setAttempts(prev => prev + 1)\<close>
  reads the counter of that state.
\<close>

definition submit_begin ::
  "digest \<Rightarrow> puzzle list \<Rightarrow> app \<Rightarrow> exn + (app \<times> (app \<times> bool) option)" where
  "submit_begin digest puzzles st =
     (if guess st = [] \<or> status st = Checking \<or> status st = Success
      then Inr (st, None)
      else case currentPuzzle_of puzzles st of
        None \<Rightarrow> Inl TypeError
      | Some currentPuzzle \<Rightarrow>
          Inr (st\<lparr>status := Checking\<rparr>, Some (st, isCorrect digest (guess st) currentPuzzle)))"

text \<open>
  The first timer, 400 ms later, on the storage and the state of that moment: the award
  and the new session are computed from the closure and written to the storage.
\<close>

definition submit_resolve :: "app \<times> bool \<Rightarrow> storage \<Rightarrow> app \<Rightarrow> exn + (storage \<times> app)" where
  "submit_resolve closure store live =
     (case closure of (captured, correct) \<Rightarrow>
        if correct
        then
          (let pointsEarned = pointsEarned_of (showHint captured) (attempts captured);
               newScore = js_add (score captured) pointsEarned;
               newPuzzlesToday = js_add (puzzlesToday captured) 1
           in case scoreHistory captured of
                Foreign \<Rightarrow> Inl Foreign_history
              | Scores h \<Rightarrow>
                  (let newHistory = h @ [pointsEarned]
                   in Inr (store\<lparr>gchq_score := Some (Number_toString newScore),
                                gchq_history := Some (JSON_stringify newHistory),
                                gchq_puzzles_today := Some (Number_toString newPuzzlesToday)\<rparr>,
                           live\<lparr>status := Success\<rparr>)))
        else Inr (store, live\<lparr>status := Error, attempts := js_add (attempts live) 1\<rparr>))"

text \<open>
  The second timer, 1500 ms after a success and 800 ms after an error. After a success it
  sets the values the first timer computed, which are recomputed here from the same
  closure.
\<close>

definition submit_settle :: "app \<times> bool \<Rightarrow> app \<Rightarrow> app" where
  "submit_settle closure live =
     (case closure of (captured, correct) \<Rightarrow>
        if correct
        then
          (let pointsEarned = pointsEarned_of (showHint captured) (attempts captured);
               newScore = js_add (score captured) pointsEarned;
               newPuzzlesToday = js_add (puzzlesToday captured) 1
           in case scoreHistory captured of
                Foreign \<Rightarrow> live
              | Scores h \<Rightarrow>
                  live\<lparr>score := newScore,
                       scoreHistory := Scores (h @ [pointsEarned]),
                       puzzlesToday := newPuzzlesToday,
                       guess := [],
                       showHint := False,
                       attempts := 0,
                       status := Idle,
                       gameState :=
                         (if 5 \<le> newPuzzlesToday then Done_for_day else gameState live)\<rparr>)
        else live\<lparr>status := Idle, guess := []\<rparr>)"

text \<open>
  Two things of the playing screen that do not look at the status. The button that
  reveals the hint is drawn whenever the hint is hidden, also while a submission is being
  checked:
  \<^verbatim>\<open>
  {!showHint ? <button onClick={() => setShowHint(true)} ...
  \<close>
  and the value of the puzzle, shown as \<^verbatim>\<open>VALUE: {currentPuzzleValue} PTS\<close>, is computed at
  every render from the state of that render:
  \<^verbatim>\<open>
  const currentPuzzleValue = showHint ? 0
    : (attempts === 0 ? 100 : (attempts === 1 ? 75 : (attempts === 2 ? 50 : 25)));
  \<close>
\<close>

definition setShowHint_true :: "app \<Rightarrow> app" where
  "setShowHint_true st = st\<lparr>showHint := True\<rparr>"

definition currentPuzzleValue :: "app \<Rightarrow> int" where
  "currentPuzzleValue st =
     (if showHint st then 0
      else if attempts st = 0 then 100 else if attempts st = 1 then 75
      else if attempts st = 2 then 50 else 25)"

subsection \<open>The sessions a player can reach\<close>

text \<open>
  A run starts with nothing stored. The page is loaded (the effect runs on the initial
  state, on some day, with the five puzzles of some day index), the player moves between
  the screens, types a guess, asks for the hint, and submits; the form that submits is
  only drawn on the playing screen. An event that throws leaves no successor. These are
  the states between submissions: a submission is one step, with both its timers, so the
  relation holds no state in which a timer is still to fire, and no run in which another
  event falls between a submission and its timers. Those runs are the relation
  \<open>running\<close> below.
\<close>

inductive reachable :: "json_parser \<Rightarrow> digest \<Rightarrow> puzzle list \<Rightarrow> storage \<Rightarrow> app \<Rightarrow> bool"
  for JSON_parse :: json_parser and digest :: digest and puzzles :: "puzzle list" where
  start: "reachable JSON_parse digest puzzles empty_storage initial_app"
| loaded:
    "reachable JSON_parse digest puzzles store st \<Longrightarrow>
     load JSON_parse todayStr (todaysIds_of dayIndex (masterPuzzleList puzzles)) store initial_app
       = Inr (store', st') \<Longrightarrow>
     reachable JSON_parse digest puzzles store' st'"
| screen:
    "reachable JSON_parse digest puzzles store st \<Longrightarrow>
     reachable JSON_parse digest puzzles store (st\<lparr>gameState := g\<rparr>)"
| typed:
    "reachable JSON_parse digest puzzles store st \<Longrightarrow>
     reachable JSON_parse digest puzzles store (st\<lparr>guess := text_typed\<rparr>)"
| hinted:
    "reachable JSON_parse digest puzzles store st \<Longrightarrow>
     reachable JSON_parse digest puzzles store (st\<lparr>showHint := True\<rparr>)"
| submitted:
    "reachable JSON_parse digest puzzles store st \<Longrightarrow>
     gameState st = Playing \<Longrightarrow>
     handleSubmit digest puzzles store st = Inr (store', shown, st') \<Longrightarrow>
     reachable JSON_parse digest puzzles store' st'"

text \<open>
  The invariant of the day's session: the score is the sum of the history, the counter
  its length, and every entry is an award.
\<close>

definition session_ok :: "int \<Rightarrow> int \<Rightarrow> int list \<Rightarrow> bool" where
  "session_ok puzzlesCompleted cumulativeScore scores =
     (cumulativeScore = sum_list scores \<and> puzzlesCompleted = int (length scores) \<and>
      list_all (\<lambda>v. v \<in> set [0, 25, 50, 75, 100]) scores)"

text \<open>The session that loading would read from the storage, when the history is an array.\<close>

definition persisted_session :: "json_parser \<Rightarrow> storage \<Rightarrow> (int \<times> int \<times> int list) option" where
  "persisted_session JSON_parse store =
     (case JSON_parse (history_text store) of
        Some v \<Rightarrow>
          (case or_empty v of
             Scores xs \<Rightarrow>
               Some (or0 (parseInt (gchq_puzzles_today store)), or0 (parseInt (gchq_score store)), xs)
           | Foreign \<Rightarrow> None)
      | None \<Rightarrow> None)"

text \<open>
  What holds of every state a player can reach: the session in memory is an array of
  awards that satisfies the invariant, the storage holds that same session, no
  submission is under way, and the day has at most five puzzles.
\<close>

definition session_inv :: "json_parser \<Rightarrow> storage \<Rightarrow> app \<Rightarrow> bool" where
  "session_inv JSON_parse store st =
     (case scoreHistory st of
        Scores h \<Rightarrow>
          session_ok (puzzlesToday st) (score st) h \<and>
          persisted_session JSON_parse store = Some (puzzlesToday st, score st, h) \<and>
          status st = Idle \<and> length (todaysPuzzles st) \<le> 5
      | Foreign \<Rightarrow> False)"

subsection \<open>The runs, with the timers\<close>

text \<open>
  A run of the page with the timers as events of their own. At most one timer is waiting:
  the first or the second timer of a submission, with the closure of that submission.
  The handler is called by the submit event of the form. The button of the form is
  disabled unless the status is idle,
  \<^verbatim>\<open>
  <button type="submit" disabled={!guess || status !== 'idle'} ...
  \<close>
  and the browser does not submit a form whose submit button is disabled, so a submission
  starts only when no timer is waiting (the guard of \<^verbatim>\<open>handleSubmit\<close> alone would also let
  one start while the status is \<^verbatim>\<open>error\<close>). While a timer is waiting the player can
  reveal the hint, whatever the status, and can type unless the input is disabled,
  \<^verbatim>\<open>
  <input ... disabled={status === 'success' || status === 'checking'} ...
  \<close>
  and the page can be loaded again, which drops the timer. The buttons that change the
  screen are on the other screens, where no submission is under way.
\<close>

datatype timer = First_timer "app \<times> bool" | Second_timer "app \<times> bool"

inductive running ::
  "json_parser \<Rightarrow> digest \<Rightarrow> puzzle list \<Rightarrow> storage \<Rightarrow> app \<Rightarrow> timer option \<Rightarrow> bool"
  for JSON_parse :: json_parser and digest :: digest and puzzles :: "puzzle list" where
  start: "running JSON_parse digest puzzles empty_storage initial_app None"
| loaded:
    "running JSON_parse digest puzzles store st pending \<Longrightarrow>
     load JSON_parse todayStr (todaysIds_of dayIndex (masterPuzzleList puzzles)) store initial_app
       = Inr (store', st') \<Longrightarrow>
     running JSON_parse digest puzzles store' st' None"
| screen:
    "running JSON_parse digest puzzles store st None \<Longrightarrow>
     running JSON_parse digest puzzles store (st\<lparr>gameState := g\<rparr>) None"
| typed:
    "running JSON_parse digest puzzles store st pending \<Longrightarrow>
     status st \<noteq> Success \<Longrightarrow> status st \<noteq> Checking \<Longrightarrow>
     running JSON_parse digest puzzles store (st\<lparr>guess := text_typed\<rparr>) pending"
| hinted:
    "running JSON_parse digest puzzles store st pending \<Longrightarrow>
     running JSON_parse digest puzzles store (setShowHint_true st) pending"
| submitted:
    "running JSON_parse digest puzzles store st None \<Longrightarrow>
     gameState st = Playing \<Longrightarrow>
     submit_begin digest puzzles st = Inr (st', closure) \<Longrightarrow>
     running JSON_parse digest puzzles store st' (map_option First_timer closure)"
| first_timer:
    "running JSON_parse digest puzzles store st (Some (First_timer closure)) \<Longrightarrow>
     submit_resolve closure store st = Inr (store', st') \<Longrightarrow>
     running JSON_parse digest puzzles store' st' (Some (Second_timer closure))"
| second_timer:
    "running JSON_parse digest puzzles store st (Some (Second_timer closure)) \<Longrightarrow>
     running JSON_parse digest puzzles store (submit_settle closure st) None"

text \<open>
  What holds of a run while a timer is waiting. Before the first timer the state is the
  one of the submission with the status \<^verbatim>\<open>checking\<close>, and the hint may have been revealed
  since. Before the second timer the first has written the storage from the closure, or
  has counted the attempt; the hint may have been revealed, and after a wrong guess the
  input may have been typed in.
\<close>

fun flight_inv ::
  "json_parser \<Rightarrow> digest \<Rightarrow> puzzle list \<Rightarrow> storage \<Rightarrow> app \<Rightarrow> timer option \<Rightarrow> bool" where
  "flight_inv JSON_parse digest puzzles store st None =
     reachable JSON_parse digest puzzles store st"
| "flight_inv JSON_parse digest puzzles store st (Some (First_timer (captured, correct))) =
     (reachable JSON_parse digest puzzles store captured \<and> gameState captured = Playing \<and>
      submit_begin digest puzzles captured =
        Inr (captured\<lparr>status := Checking\<rparr>, Some (captured, correct)) \<and>
      (\<exists>b. (b \<or> b = showHint captured) \<and> st = captured\<lparr>status := Checking, showHint := b\<rparr>))"
| "flight_inv JSON_parse digest puzzles store st (Some (Second_timer (captured, correct))) =
     (\<exists>store0 b g.
        reachable JSON_parse digest puzzles store0 captured \<and> gameState captured = Playing \<and>
        submit_begin digest puzzles captured =
          Inr (captured\<lparr>status := Checking\<rparr>, Some (captured, correct)) \<and>
        (b \<or> b = showHint captured) \<and>
        (if correct
         then submit_resolve (captured, True) store0 (captured\<lparr>status := Checking\<rparr>) =
                Inr (store, captured\<lparr>status := Success\<rparr>) \<and>
              st = captured\<lparr>status := Success, showHint := b\<rparr>
         else store = store0 \<and>
              st = captured\<lparr>status := Error, attempts := js_add (attempts captured) 1,
                     showHint := b, guess := g\<rparr>))"

section \<open>Sample data\<close>

text \<open>
  A pool of seven puzzles, two of them with a stored digest, and two instances of the
  digest parameter: one that answers with the code units of the text (any function
  serves where only the comparison is evaluated) and one that always throws.
\<close>

definition plain_puzzle :: "int \<Rightarrow> string \<Rightarrow> puzzle" where
  "plain_puzzle i a =
     \<lparr>ident = i, title = [], body = [], hint = [], answer = Some a, answerHash = None\<rparr>"

definition hashed_puzzle :: "int \<Rightarrow> string \<Rightarrow> puzzle" where
  "hashed_puzzle i h =
     \<lparr>ident = i, title = [], body = [], hint = [], answer = None, answerHash = Some h\<rparr>"

definition sample_pool :: "puzzle list" where
  "sample_pool =
     [plain_puzzle 1 ''enigma'', hashed_puzzle 2 ''6162'', plain_puzzle 3 ''ultra'',
      hashed_puzzle 4 ''6B6579'', plain_puzzle 5 ''colossus'', plain_puzzle 6 ''bombe'',
      plain_puzzle 7 ''station x'']"

definition units_digest :: digest where
  "units_digest txt = Some (map (\<lambda>c. of_nat (of_char c)) txt)"

definition failing_digest :: digest where
  "failing_digest txt = None"

text \<open>
  A session on the playing screen, two puzzles done for 100 and 75 points, the third
  puzzle of the day (id 1, answer \<open>enigma\<close>) tried twice and about to be submitted; and
  the storage that goes with it.
\<close>

definition sample_app :: app where
  "sample_app =
     \<lparr>gameState = Playing, puzzlesToday = 2, score = 175, scoreHistory = Scores [100, 75],
      todaysPuzzles = [Some 4, Some 2, Some 1, Some 6, Some 7], guess = ''En ig ma'',
      status = Idle, showHint = False, attempts = 2\<rparr>"

definition sample_storage :: storage where
  "sample_storage =
     \<lparr>gchq_date = Some ''Mon Mar 11 2024'', gchq_puzzles_today = Some ''2'',
      gchq_score = Some ''175'', gchq_history = Some ''[100,75]''\<rparr>"

text \<open>
  Two storages whose history is not JSON: the one of a finished day before, and the
  sample storage of today with the history cut short.
\<close>

definition stale_broken_storage :: storage where
  "stale_broken_storage =
     \<lparr>gchq_date = Some ''Sun Mar 10 2024'', gchq_puzzles_today = Some ''5'',
      gchq_score = Some ''500'', gchq_history = Some ''[100,100,100,100,100''\<rparr>"

definition broken_storage :: storage where
  "broken_storage = sample_storage\<lparr>gchq_history := Some ''[100,75''\<rparr>"

text \<open>
  The first guess of a day: the page was loaded with nothing stored, on the day with the
  index 3, the player went to the playing screen and typed the answer of the puzzle 2.
\<close>

definition first_guess_app :: app where
  "first_guess_app =
     initial_app\<lparr>todaysPuzzles := [Some 2, Some 1, Some 6, Some 7, Some 3],
                 gameState := Playing, guess := ''A b''\<rparr>"

text \<open>
  That guess has been submitted and is being checked, and the player reveals the hint
  before the first timer fires.
\<close>

definition hint_while_checking :: app where
  "hint_while_checking = setShowHint_true (first_guess_app\<lparr>status := Checking\<rparr>)"

section \<open>Numbers: when the rounding does nothing, and how far it can go\<close>

lemma ulp_exp_small: "m < 2 ^ 53 \<Longrightarrow> ulp_exp m = 0"
  by (simp add: ulp_exp.simps)

lemma round53_exact: "m < 2 ^ 53 \<Longrightarrow> round53 m = m"
  by (simp add: round53_def ulp_exp_small)

lemma js_add_exact: "\<bar>x + y\<bar> < 2 ^ 53 \<Longrightarrow> js_add x y = x + y"
  by (auto simp: js_add_def Let_def round53_exact nat_less_iff)

lemma ulp_exp_bounds:
  "m div 2 ^ ulp_exp m < 2 ^ 53 \<and> (0 < ulp_exp m \<longrightarrow> 2 ^ 52 \<le> m div 2 ^ ulp_exp m)"
proof (induction m rule: ulp_exp.induct)
  case (1 m)
  show ?case
  proof (cases "m < 2 ^ 53")
    case True
    then show ?thesis by (simp add: ulp_exp.simps)
  next
    case False
    then have e: "ulp_exp m = Suc (ulp_exp (m div 2))"
      by (simp add: ulp_exp.simps)
    have d: "m div (2 * 2 ^ ulp_exp (m div 2)) = (m div 2) div 2 ^ ulp_exp (m div 2)"
      by (simp add: div_mult2_eq)
    have ih: "m div 2 div 2 ^ ulp_exp (m div 2) < 2 ^ 53 \<and>
        (0 < ulp_exp (m div 2) \<longrightarrow> 2 ^ 52 \<le> m div 2 div 2 ^ ulp_exp (m div 2))"
      using "1.IH" False by simp
    show ?thesis
    proof (cases "ulp_exp (m div 2) = 0")
      case True
      then show ?thesis using ih False by (simp add: e d)
    next
      case False
      then show ?thesis using ih by (simp add: e d)
    qed
  qed
qed

lemma round53_upper: "2 * round53 m \<le> 2 * m + 2 ^ ulp_exp m"
proof -
  define P where "P = (2::nat) ^ ulp_exp m"
  define q where "q = m div P"
  define r where "r = m mod P"
  have m: "m = q * P + r"
    unfolding q_def r_def by (rule div_mult_mod_eq [symmetric])
  have rnd: "round53 m = (if P < 2 * r \<or> (2 * r = P \<and> odd q) then q * P + P else q * P)"
    by (simp add: round53_def Let_def P_def q_def r_def)
  have "2 * round53 m \<le> 2 * (q * P + r) + P"
    unfolding rnd by auto
  then show ?thesis
    unfolding P_def [symmetric] using m by simp
qed

text \<open>Rounding moves a number by at most the fraction \<open>2 ^ -53\<close> of itself.\<close>

lemma round53_rel: "2 ^ 53 * round53 m \<le> (2 ^ 53 + 1) * m"
proof (cases "ulp_exp m = 0")
  case True
  then have "round53 m = m" by (simp add: round53_def)
  then show ?thesis by simp
next
  case False
  then have "2 ^ 52 \<le> m div 2 ^ ulp_exp m" using ulp_exp_bounds [of m] by simp
  then have "2 ^ 52 * 2 ^ ulp_exp m \<le> (m div 2 ^ ulp_exp m) * 2 ^ ulp_exp m"
    by (rule mult_le_mono1)
  also have "\<dots> \<le> m" by simp
  finally have "2 ^ 52 * 2 ^ ulp_exp m \<le> m" .
  with round53_upper [of m] show ?thesis by simp
qed

section \<open>The generator\<close>

lemma ToInt32_sint_add: "ToInt32 (sint a + sint b) = a + b"
  by (simp add: ToInt32_def)

text \<open>The three mixing lines are 32-bit wrap-around arithmetic.\<close>

lemma mix32_wrap:
  "mix32 t0 =
     (let t1 = (t0 XOR drop_bit 15 t0) * (t0 OR 1);
          t2 = t1 XOR (t1 + (t1 XOR drop_bit 7 t1) * (t1 OR 61))
      in t2 XOR drop_bit 14 t2)"
  by (simp add: mix32_def imul_def ToInt32_sint_add Let_def)

lemma seededRandom_bits_exact:
  "\<bar>seed + 1831565813\<bar> < 2 ^ 53 \<Longrightarrow>
   seededRandom_bits seed = (mix32 (word_of_int (seed + 1831565813)), seed + 1831565813)"
  by (simp add: seededRandom_bits_def Let_def js_add_exact ToInt32_def)

lemma seed_after_exact:
  "- (2 ^ 53) < seed \<Longrightarrow> seed + int n * 0x6D2B79F5 < 2 ^ 53 \<Longrightarrow>
   seed_after n seed = seed + int n * 0x6D2B79F5"
proof (induction n arbitrary: seed)
  case 0
  then show ?case by simp
next
  case (Suc n)
  have step: "snd (seededRandom_bits seed) = seed + 0x6D2B79F5"
    using Suc.prems by (simp add: seededRandom_bits_def Let_def js_add_exact abs_less_iff)
  show ?case
    using Suc.prems Suc.IH [of "seed + 0x6D2B79F5"] by (simp add: step algebra_simps)
qed

lemma wrap32_after_eq: "wrap32_after n a = a + of_nat n * 0x6D2B79F5"
  by (induction n arbitrary: a) (simp_all add: wrap32_next_def Let_def algebra_simps)

lemma nth_random_range: "0 \<le> nth_random seed n \<and> nth_random seed n < 1"
proof -
  have "unat u < 4294967296" for u :: "32 word"
    using unsigned_less [of u, where 'a = nat] by simp
  then have "real (unat u) < 4294967296" for u :: "32 word"
    by (metis of_nat_less_iff of_nat_numeral)
  moreover have "0 \<le> real (unat u)" for u :: "32 word"
    by (rule of_nat_0_le_iff)
  ultimately show ?thesis
    by (simp add: nth_random_def seededRandom_next_def split_beta Let_def)
qed

lemma nth_random_wrap32:
  assumes "- (2 ^ 53) < seed" and "seed + (int n + 1) * 0x6D2B79F5 < 2 ^ 53"
  shows "nth_random seed n = wrap32_nth seed n"
proof -
  have a: "seed_after n seed = seed + int n * 0x6D2B79F5"
    using assms by (intro seed_after_exact) (simp_all add: algebra_simps)
  have b: "js_add (seed + int n * 0x6D2B79F5) 0x6D2B79F5 = seed + int n * 0x6D2B79F5 + 0x6D2B79F5"
    using assms by (intro js_add_exact) (simp add: abs_less_iff algebra_simps)
  show ?thesis
    by (simp add: nth_random_def wrap32_nth_def seededRandom_next_def seededRandom_bits_def
        wrap32_next_def wrap32_after_eq a b Let_def ToInt32_def algebra_simps)
qed

text \<open>
  Claim C2, as the code has it. For every 32-bit integer seed and every position \<open>n\<close> of
  the stream, the output number \<open>n\<close> of \<^verbatim>\<open>seededRandom\<close> lies in the half-open interval
  from 0 to 1 and is a function of the seed and the position alone; and as long as the
  captured variable has stayed below \<open>2 ^ 53\<close>, that is while
  \<open>seed + (n + 1) * 0x6D2B79F5 < 2 ^ 53\<close>, it is the output number \<open>n\<close> of the generator
  that does every step, the increment of the state included, in 32-bit arithmetic
  modulo \<open>2 ^ 32\<close>.
\<close>

theorem seededRandom_stream:
  assumes "- (2 ^ 31) \<le> seed" and "seed < 2 ^ 32"
  shows "0 \<le> nth_random seed n \<and> nth_random seed n < 1 \<and>
         (seed + (int n + 1) * 0x6D2B79F5 < 2 ^ 53 \<longrightarrow> nth_random seed n = wrap32_nth seed n)"
proof -
  have "- (2 ^ 53) < seed" using assms(1) by simp
  then show ?thesis
    using nth_random_range [of seed n] nth_random_wrap32 [of seed n] by blast
qed

theorem seededRandom_stream_witness:
  "- (2 ^ 31) \<le> (42::int) \<and> (42::int) < 2 ^ 32 \<and>
   0 \<le> nth_random 42 3 \<and> nth_random 42 3 < 1 \<and> nth_random 42 3 = wrap32_nth 42 3 \<and>
   nth_random 42 0 = 2581720956 / 4294967296"
proof -
  have "nth_random 42 0 = 2581720956 / 4294967296"
    by (simp add: nth_random_def seededRandom_next_def seededRandom_bits_exact mix32_wrap)
  then show ?thesis
    using seededRandom_stream [of 42 3] by simp
qed

text \<open>
  Claim C2 as the specification states it fails: with the seed 42 the captured variable
  passes \<open>2 ^ 53\<close> at the call number 4917758 (counted from 0), the addition
  \<^verbatim>\<open>seed += 0x6D2B79F5\<close> rounds 9007199260973109 to 9007199260973108, and the output
  differs from that of the generator in 32-bit wrap-around arithmetic.
\<close>

theorem seededRandom_stream_counterexample:
  "nth_random 42 4917758 = 2543212789 / 4294967296 \<and>
   wrap32_nth 42 4917758 = 2345769536 / 4294967296 \<and>
   nth_random 42 4917758 \<noteq> wrap32_nth 42 4917758"
proof -
  have a: "seed_after 4917758 42 = 9007197429407296"
    using seed_after_exact [of 42 4917758] by simp
  have b: "js_add 9007197429407296 0x6D2B79F5 = 9007199260973108"
    by (simp add: js_add_def round53_def ulp_exp.simps Let_def)
  have c: "(unsigned (mix32 (ToInt32 9007199260973108)) :: real) = 2543212789"
    by (simp add: mix32_def ToInt32_def imul_def Let_def)
  have d: "(unsigned (mix32 9007199260973109) :: real) = 2345769536"
    by (simp add: mix32_def ToInt32_def imul_def Let_def)
  show ?thesis
    by (simp add: nth_random_def wrap32_nth_def seededRandom_next_def seededRandom_bits_def
        wrap32_next_def wrap32_after_eq a b c d Let_def)
qed

section \<open>The shuffle\<close>

text \<open>The index drawn lies in the part of the array that is still to be shuffled.\<close>

lemma Math_floor_times_less:
  assumes "0 < n"
  shows "Math_floor_times u n < n"
proof -
  have "unat u < 4294967296"
    using unsigned_less [of u, where 'a = nat] by simp
  then have "unat u * n \<le> 4294967295 * n" by simp
  then have "(2 ^ 53 + 1) * (unat u * n) \<le> (2 ^ 53 + 1) * (4294967295 * n)"
    by (rule mult_le_mono2)
  with round53_rel [of "unat u * n"]
  have "2 ^ 53 * round53 (unat u * n) \<le> (2 ^ 53 + 1) * (4294967295 * n)" by linarith
  with assms have "round53 (unat u * n) < 4294967296 * n" by simp
  then show ?thesis
    by (simp add: Math_floor_times_def less_mult_imp_div_less mult.commute)
qed

text \<open>
  For a pool of up to \<open>2 ^ 21\<close> puzzles the product is exact, and the index is the floor
  of the product of real numbers.
\<close>

lemma Math_floor_times_exact:
  assumes "n \<le> 2097152"
  shows "int (Math_floor_times u n) = \<lfloor>real (unat u) / 4294967296 * real n\<rfloor>"
proof -
  have "unat u < 4294967296"
    using unsigned_less [of u, where 'a = nat] by simp
  then have "unat u * n \<le> 4294967295 * 2097152"
    using assms by (intro mult_le_mono) simp_all
  then have "round53 (unat u * n) = unat u * n"
    by (simp add: round53_def ulp_exp.simps)
  moreover have "real (unat u) / 4294967296 * real n = real (unat u * n) / real 4294967296"
    by simp
  ultimately show ?thesis
    unfolding Math_floor_times_def by (simp only: floor_divide_of_nat_eq)
qed

lemma shuffle_loop_0: "shuffle_loop 0 seed ids = ids"
  by (simp add: shuffle_loop.simps)

lemma shuffle_loop_step:
  "0 < i \<Longrightarrow> shuffle_loop i seed ids =
     shuffle_loop (i - 1) (snd (seededRandom_bits seed))
       (swap_at i (Math_floor_times (fst (seededRandom_bits seed)) (i + 1)) ids)"
  by (subst shuffle_loop.simps) (simp add: split_beta Let_def)

lemma nth_bits_Suc: "nth_bits seed (Suc n) = nth_bits (snd (seededRandom_bits seed)) n"
  by (simp add: nth_bits_def)

lemma shuffle_loop_fold:
  "shuffle_loop i seed ids =
     fold (\<lambda>k xs. swap_at k (Math_floor_times (nth_bits seed (i - k)) (k + 1)) xs)
       (rev [1..<Suc i]) ids"
proof (induction i arbitrary: seed ids)
  case 0
  then show ?case by (simp add: shuffle_loop_0)
next
  case (Suc i)
  define seed' where "seed' = snd (seededRandom_bits seed)"
  define ys where "ys = swap_at (Suc i) (Math_floor_times (nth_bits seed 0) (Suc i + 1)) ids"
  have step: "shuffle_loop (Suc i) seed ids = shuffle_loop i seed' ys"
    by (simp add: shuffle_loop_step seed'_def ys_def nth_bits_def)
  have draws: "fold (\<lambda>k xs. swap_at k (Math_floor_times (nth_bits seed' (i - k)) (k + 1)) xs)
        (rev [1..<Suc i]) ys =
      fold (\<lambda>k xs. swap_at k (Math_floor_times (nth_bits seed (Suc i - k)) (k + 1)) xs)
        (rev [1..<Suc i]) ys"
  proof (rule fold_cong [OF refl refl])
    fix k assume "k \<in> set (rev [1..<Suc i])"
    then have "Suc i - k = Suc (i - k)" by auto
    then show "(\<lambda>xs. swap_at k (Math_floor_times (nth_bits seed' (i - k)) (k + 1)) xs) =
        (\<lambda>xs. swap_at k (Math_floor_times (nth_bits seed (Suc i - k)) (k + 1)) xs)"
      by (simp add: nth_bits_Suc seed'_def)
  qed
  have "rev [1..<Suc (Suc i)] = Suc i # rev [1..<Suc i]" by simp
  then show ?case
    unfolding step Suc.IH draws by (simp add: ys_def)
qed

lemma mset_swap_at:
  "i < length ids \<Longrightarrow> j < length ids \<Longrightarrow> mset (swap_at i j ids) = mset ids"
  unfolding swap_at_def by (simp add: mset_swap)

lemma length_swap_at: "length (swap_at i j ids) = length ids"
  by (simp add: swap_at_def)

lemma mset_shuffle_loop:
  "i < length ids \<Longrightarrow> mset (shuffle_loop i seed ids) = mset ids"
proof (induction i arbitrary: seed ids)
  case 0
  then show ?case by (simp add: shuffle_loop_0)
next
  case (Suc i)
  define j where "j = Math_floor_times (fst (seededRandom_bits seed)) (Suc i + 1)"
  have "j < Suc i + 1" unfolding j_def by (rule Math_floor_times_less) simp
  with Suc.prems have j: "j < length ids" by simp
  have "shuffle_loop (Suc i) seed ids =
      shuffle_loop i (snd (seededRandom_bits seed)) (swap_at (Suc i) j ids)"
    by (simp add: shuffle_loop_step j_def)
  moreover have "mset (shuffle_loop i (snd (seededRandom_bits seed)) (swap_at (Suc i) j ids)) =
      mset (swap_at (Suc i) j ids)"
    using Suc.prems by (intro Suc.IH) (simp add: length_swap_at)
  ultimately show ?case
    using Suc.prems j by (simp add: mset_swap_at)
qed

lemma mset_getMasterPuzzleList:
  "mset (getMasterPuzzleList seed puzzles) = mset (map ident puzzles)"
proof (cases "puzzles = []")
  case True
  then show ?thesis by (simp add: getMasterPuzzleList_def shuffle_loop_0)
next
  case False
  then have "length puzzles - 1 < length (map ident puzzles)" by simp
  then show ?thesis
    unfolding getMasterPuzzleList_def Let_def by (simp add: mset_shuffle_loop)
qed

lemma getMasterPuzzleList_sample:
  "getMasterPuzzleList 42 sample_pool = [4, 2, 1, 6, 7, 3, 5]"
  by (simp add: getMasterPuzzleList_def sample_pool_def plain_puzzle_def hashed_puzzle_def
      shuffle_loop_step shuffle_loop_0 seededRandom_bits_exact mix32_wrap
      Math_floor_times_def round53_exact swap_at_def)

lemma nth_random_bits: "nth_random seed k = real (unat (nth_bits seed k)) / 4294967296"
  by (simp add: nth_random_def nth_bits_def seededRandom_next_def split_beta)

text \<open>
  Claim C1. For every pool and every seed, \<^verbatim>\<open>getMasterPuzzleList\<close> is the Fisher-Yates
  shuffle of section 4.2: the index \<open>i\<close> runs from \<open>length - 1\<close> down to 1, the step at
  \<open>i\<close> draws the next number \<open>r\<close> of the generator, computes \<open>j = floor (r * (i + 1))\<close>
  and swaps the positions \<open>i\<close> and \<open>j\<close>. The result is a function of the seed and of the
  pool's ids alone, so that two invocations give the same list, and it is a permutation
  of the pool's ids. The index \<open>j\<close> is at most \<open>i\<close>, and for \<open>i + 1\<close> up to \<open>2 ^ 21\<close>,
  where the product of the doubles is exact, it is the floor of the product of real
  numbers.
\<close>

theorem getMasterPuzzleList_fisher_yates:
  "getMasterPuzzleList seed puzzles = fisher_yates_spec (nth_bits seed) (map ident puzzles) \<and>
   mset (getMasterPuzzleList seed puzzles) = mset (map ident puzzles) \<and>
   (\<forall>k i. Math_floor_times (nth_bits seed k) (i + 1) \<le> i) \<and>
   (\<forall>k i. i + 1 \<le> 2097152 \<longrightarrow>
      int (Math_floor_times (nth_bits seed k) (i + 1)) = \<lfloor>nth_random seed k * real (i + 1)\<rfloor>)"
proof (intro conjI allI impI)
  show "getMasterPuzzleList seed puzzles = fisher_yates_spec (nth_bits seed) (map ident puzzles)"
  proof (cases "puzzles = []")
    case True
    then show ?thesis
      by (simp add: getMasterPuzzleList_def fisher_yates_spec_def shuffle_loop_0)
  next
    case False
    then have "Suc (length puzzles - 1) = length puzzles"
      by simp
    then show ?thesis
      unfolding getMasterPuzzleList_def fisher_yates_spec_def Let_def
      by (simp add: shuffle_loop_fold)
  qed
  show "mset (getMasterPuzzleList seed puzzles) = mset (map ident puzzles)"
    by (rule mset_getMasterPuzzleList)
  show "Math_floor_times (nth_bits seed k) (i + 1) \<le> i" for k i
    using Math_floor_times_less [of "i + 1" "nth_bits seed k"] by simp
  show "int (Math_floor_times (nth_bits seed k) (i + 1)) = \<lfloor>nth_random seed k * real (i + 1)\<rfloor>"
    if "i + 1 \<le> 2097152" for k i
    unfolding nth_random_bits by (rule Math_floor_times_exact [OF that])
qed

theorem getMasterPuzzleList_fisher_yates_witness:
  "getMasterPuzzleList 42 sample_pool = [4, 2, 1, 6, 7, 3, 5] \<and>
   fisher_yates_spec (nth_bits 42) (map ident sample_pool) = [4, 2, 1, 6, 7, 3, 5] \<and>
   mset [4, 2, 1, 6, 7, 3, 5] = mset (map ident sample_pool) \<and>
   (6::nat) + 1 \<le> 2097152 \<and> Math_floor_times (nth_bits 42 0) (6 + 1) = 4 \<and>
   \<lfloor>nth_random 42 0 * real (6 + 1)\<rfloor> = 4"
proof -
  note fy = getMasterPuzzleList_fisher_yates [of 42 sample_pool]
  have small: "(6::nat) + 1 \<le> 2097152"
    by simp
  have j: "Math_floor_times (nth_bits 42 0) (6 + 1) = 4"
    by (simp add: nth_bits_def seededRandom_bits_exact mix32_wrap Math_floor_times_def
        round53_exact)
  from fy have fl: "i + 1 \<le> 2097152 \<Longrightarrow>
      int (Math_floor_times (nth_bits 42 k) (i + 1)) = \<lfloor>nth_random 42 k * real (i + 1)\<rfloor>" for k i
    by blast
  have "\<lfloor>nth_random 42 0 * real (6 + 1)\<rfloor> = int (Math_floor_times (nth_bits 42 0) (6 + 1))"
    by (rule fl [OF small, symmetric])
  then have r: "\<lfloor>nth_random 42 0 * real (6 + 1)\<rfloor> = 4"
    by (simp only: j)
  note e1 = fy [THEN conjunct1] and e2 = fy [THEN conjunct2, THEN conjunct1]
  have a: "fisher_yates_spec (nth_bits 42) (map ident sample_pool) = [4, 2, 1, 6, 7, 3, 5]"
    using e1 getMasterPuzzleList_sample by metis
  have b: "mset [4, 2, 1, 6, 7, 3, 5] = mset (map ident sample_pool)"
    using e2 getMasterPuzzleList_sample by metis
  from getMasterPuzzleList_sample a b small j r show ?thesis
    by blast
qed

section \<open>The daily set\<close>

lemma todays_loop_map:
  "i \<le> 5 \<Longrightarrow>
   todays_loop dayIndex order i todaysIds = todaysIds @ map (todays_slot dayIndex order) [i..<5]"
proof (induction dayIndex order i todaysIds rule: todays_loop.induct)
  case (1 dayIndex order i todaysIds)
  show ?case
  proof (cases "i < 5")
    case True
    then have "[i..<5] = i # [i + 1..<5]"
      by (simp add: upt_conv_Cons)
    then show ?thesis
      using True "1.IH" by (subst todays_loop.simps) simp
  next
    case False
    with "1.prems" show ?thesis
      by (subst todays_loop.simps) simp
  qed
qed

lemma todaysIds_of_map: "todaysIds_of dayIndex order = map (todays_slot dayIndex order) [0..<5]"
  by (simp add: todaysIds_of_def todays_loop_map)

lemma todays_slot_window:
  assumes "0 \<le> d" and "order \<noteq> []"
  shows "todays_slot d order k = Some (order ! ((nat d * 5 + k) mod length order))"
proof -
  have n: "0 < int (length order)" using assms(2) by simp
  have nn: "0 \<le> d * 5 + int k" using assms(1) by simp
  then have r: "js_rem (d * 5 + int k) (int (length order)) =
      Some ((d * 5 + int k) mod int (length order))"
    using n by (simp add: js_rem_def sgn_if)
  have eq: "(d * 5 + int k) mod int (length order) = int ((nat d * 5 + k) mod length order)"
    using assms(1) by (simp add: zmod_int)
  have "(nat d * 5 + k) mod length order < length order"
    using assms(2) by simp
  then show ?thesis
    unfolding todays_slot_def r eq by (simp add: index_at_def)
qed

text \<open>Five consecutive positions of a cycle of length at least five are different.\<close>

lemma window_inj:
  assumes "5 \<le> n" and "k < 5" and "k' < 5" and "(a + k) mod n = (a + k') mod n"
  shows "k = (k'::nat)"
proof (rule ccontr)
  assume ne: "k \<noteq> k'"
  have main: "False" if lt: "i < j" and j: "j < 5" and eq: "(a + i) mod n = (a + j) mod n" for i j :: nat
  proof -
    have "n dvd (a + j) - (a + i)"
      using eq lt by (metis add_le_cancel_left less_imp_le mod_eq_dvd_iff_nat)
    then have "n dvd j - i" by simp
    moreover have "0 < j - i" "j - i < n" using lt j assms(1) by simp_all
    ultimately show False by (meson dvd_imp_le not_less)
  qed
  from ne consider "k < k'" | "k' < k" by linarith
  then show False
    using main assms by cases metis+
qed

text \<open>
  Claim C4. For every day offset \<open>d \<ge> 0\<close> and every non-empty master order (a
  permutation of the pool's ids), the selection has exactly 5 entries; the entry in the
  slot \<open>k\<close> is \<open>order[(d * 5 + k) mod length order]\<close>; each entry is the id of a puzzle of
  the pool; and when the pool's ids are unique and the pool has at least 5 puzzles, no id
  is repeated.
\<close>

theorem todaysIds_of_window:
  assumes "0 \<le> d" and "order \<noteq> []" and "mset order = mset (map ident puzzles)"
  shows "length (todaysIds_of d order) = 5 \<and>
     (\<forall>k<5. todaysIds_of d order ! k = Some (order ! ((nat d * 5 + k) mod length order))) \<and>
     set (todaysIds_of d order) \<subseteq> Some ` ident ` set puzzles \<and>
     (distinct (map ident puzzles) \<and> 5 \<le> length puzzles \<longrightarrow> distinct (todaysIds_of d order))"
proof -
  let ?n = "length order"
  let ?idx = "\<lambda>k. (nat d * 5 + k) mod ?n"
  have ids: "todaysIds_of d order = map (\<lambda>k. Some (order ! ?idx k)) [0..<5]"
    unfolding todaysIds_of_map using assms(1,2) by (simp add: todays_slot_window)
  have len: "length (todaysIds_of d order) = 5"
    by (simp add: ids)
  have nth: "\<forall>k<5. todaysIds_of d order ! k = Some (order ! ?idx k)"
    unfolding ids by (simp del: upt_Suc)
  have setpool: "set order = ident ` set puzzles"
    using assms(3) by (metis mset_eq_setD set_map)
  have idx_lt: "?idx k < ?n" for k using assms(2) by simp
  have mem: "set (todaysIds_of d order) \<subseteq> Some ` ident ` set puzzles"
    unfolding ids setpool [symmetric] using idx_lt by (auto simp del: upt_Suc)
  have dist: "distinct (todaysIds_of d order)"
    if dp: "distinct (map ident puzzles)" and five: "5 \<le> length puzzles"
  proof -
    have d_order: "distinct order"
      using assms(3) dp by (metis mset_eq_imp_distinct_iff)
    have n5: "5 \<le> ?n"
      using assms(3) five by (metis length_map mset_eq_length)
    have "inj_on (\<lambda>k. Some (order ! ?idx k)) (set [0..<5])"
    proof (rule inj_onI)
      fix k k' assume k: "k \<in> set [0..<5]" "k' \<in> set [0..<5]"
        and eq: "Some (order ! ?idx k) = Some (order ! ?idx k')"
      then have "?idx k = ?idx k'"
        using d_order idx_lt by (simp add: nth_eq_iff_index_eq)
      then show "k = k'"
        using window_inj [OF n5, of k k' "nat d * 5"] k by simp
    qed
    then show ?thesis
      unfolding ids by (simp add: distinct_map del: upt_Suc)
  qed
  show ?thesis
    using len nth mem dist by blast
qed

lemma todaysIds_of_sample:
  "todaysIds_of 3 [4, 2, 1, 6, 7, 3, 5 :: int] = [Some 2, Some 1, Some 6, Some 7, Some 3]"
  by (simp add: todaysIds_of_map todays_slot_def js_rem_def index_at_def upt_conv_Cons)

theorem todaysIds_of_window_witness:
  "(0::int) \<le> 3 \<and> getMasterPuzzleList 42 sample_pool \<noteq> [] \<and>
   mset (getMasterPuzzleList 42 sample_pool) = mset (map ident sample_pool) \<and>
   distinct (map ident sample_pool) \<and> 5 \<le> length sample_pool \<and>
   todaysIds_of 3 (getMasterPuzzleList 42 sample_pool) = [Some 2, Some 1, Some 6, Some 7, Some 3] \<and>
   distinct (todaysIds_of 3 (getMasterPuzzleList 42 sample_pool)) \<and>
   length (todaysIds_of 3 (getMasterPuzzleList 42 sample_pool)) = 5"
proof -
  have ne: "getMasterPuzzleList 42 sample_pool \<noteq> []"
    by (simp add: getMasterPuzzleList_sample)
  have pool: "distinct (map ident sample_pool)" "5 \<le> length sample_pool"
    by (simp_all add: sample_pool_def plain_puzzle_def hashed_puzzle_def)
  have ev: "todaysIds_of 3 (getMasterPuzzleList 42 sample_pool) =
      [Some 2, Some 1, Some 6, Some 7, Some 3]"
    by (simp only: getMasterPuzzleList_sample todaysIds_of_sample)
  show ?thesis
    using todaysIds_of_window [OF _ ne mset_getMasterPuzzleList, of 3] pool ne ev
      mset_getMasterPuzzleList [of 42 sample_pool]
    by simp
qed

section \<open>Scoring\<close>

lemmas char_eval = char_of_def bit_Suc_0_iff

text \<open>What a submission that ends in success has done.\<close>

lemma handleSubmit_success:
  assumes "guess st \<noteq> []" and "status st = Idle"
    and "handleSubmit digest puzzles store st = Inr (store', Success, st')"
  shows "\<exists>h p. currentPuzzle_of puzzles st = Some p \<and> isCorrect digest (guess st) p \<and>
      scoreHistory st = Scores h \<and>
      store' = store\<lparr>gchq_score := Some (Number_toString (js_add (score st) (pointsEarned_of (showHint st) (attempts st)))),
                    gchq_history := Some (JSON_stringify (h @ [pointsEarned_of (showHint st) (attempts st)])),
                    gchq_puzzles_today := Some (Number_toString (js_add (puzzlesToday st) 1))\<rparr> \<and>
      st' = st\<lparr>score := js_add (score st) (pointsEarned_of (showHint st) (attempts st)),
               scoreHistory := Scores (h @ [pointsEarned_of (showHint st) (attempts st)]),
               puzzlesToday := js_add (puzzlesToday st) 1,
               guess := [], showHint := False, attempts := 0, status := Idle,
               gameState := (if 5 \<le> js_add (puzzlesToday st) 1 then Done_for_day else gameState st)\<rparr>"
  using assms
  by (auto simp: handleSubmit_def Let_def split: option.splits if_splits history.splits)

lemma cleanGuess_sample: "cleanGuess_of ''En ig ma'' = ''enigma''"
  by (simp add: cleanGuess_of_def toLowerCase_def toLowerCase_unit_def is_whitespace_def char_eval)

lemma handleSubmit_sample:
  "handleSubmit units_digest sample_pool sample_storage sample_app =
     Inr (sample_storage\<lparr>gchq_score := Some ''225'', gchq_history := Some ''[100,75,50]'',
                         gchq_puzzles_today := Some ''3''\<rparr>,
          Success,
          sample_app\<lparr>score := 225, scoreHistory := Scores [100, 75, 50], puzzlesToday := 3,
                      guess := [], showHint := False, attempts := 0, status := Idle,
                      gameState := Playing\<rparr>)"
  by (simp add: handleSubmit_def sample_app_def sample_storage_def sample_pool_def
      plain_puzzle_def hashed_puzzle_def currentPuzzle_of_def index_at_def isCorrect_def
      truthy_def cleanGuess_sample pointsEarned_of_def js_add_exact Number_toString_def
      JSON_stringify_def string_of_nat.simps digit_char_def char_eval Let_def)

text \<open>
  The award as a function of the state at the submission. When a submission resolves the
  puzzle, the entry appended to the score history is 0 if the hint was shown when the
  guess was submitted, and otherwise 100, 75, 50 and 25 for 0, 1, 2 and 3 or more
  attempts made before: without a hint the award never increases with the attempts, and
  it strictly decreases from each of the counts 0, 1 and 2 to every larger one.
\<close>

theorem pointsEarned_steps:
  assumes "guess st \<noteq> []" and "status st = Idle"
    and "handleSubmit digest puzzles store st = Inr (store', Success, st')"
  shows "\<exists>h award. scoreHistory st = Scores h \<and> scoreHistory st' = Scores (h @ [award]) \<and>
      award = pointsEarned_of (showHint st) (attempts st) \<and>
      (showHint st \<longrightarrow> award = 0) \<and>
      (\<not> showHint st \<and> attempts st = 0 \<longrightarrow> award = 100) \<and>
      (\<not> showHint st \<and> attempts st = 1 \<longrightarrow> award = 75) \<and>
      (\<not> showHint st \<and> attempts st = 2 \<longrightarrow> award = 50) \<and>
      (\<not> showHint st \<and> 3 \<le> attempts st \<longrightarrow> award = 25) \<and>
      (\<forall>m n. 0 \<le> m \<and> m < n \<and> m < 3 \<longrightarrow> pointsEarned_of False n < pointsEarned_of False m) \<and>
      (\<forall>m n. 0 \<le> m \<and> m \<le> n \<longrightarrow> pointsEarned_of False n \<le> pointsEarned_of False m)"
proof -
  from handleSubmit_success [OF assms] obtain h where
    h: "scoreHistory st = Scores h"
    and st': "scoreHistory st' = Scores (h @ [pointsEarned_of (showHint st) (attempts st)])"
    by auto
  have tab: "(showHint st \<longrightarrow> pointsEarned_of (showHint st) (attempts st) = 0) \<and>
      (\<not> showHint st \<and> attempts st = 0 \<longrightarrow> pointsEarned_of (showHint st) (attempts st) = 100) \<and>
      (\<not> showHint st \<and> attempts st = 1 \<longrightarrow> pointsEarned_of (showHint st) (attempts st) = 75) \<and>
      (\<not> showHint st \<and> attempts st = 2 \<longrightarrow> pointsEarned_of (showHint st) (attempts st) = 50) \<and>
      (\<not> showHint st \<and> 3 \<le> attempts st \<longrightarrow> pointsEarned_of (showHint st) (attempts st) = 25)"
    by (simp add: pointsEarned_of_def)
  have mono: "(\<forall>m n. 0 \<le> m \<and> m < n \<and> m < 3 \<longrightarrow> pointsEarned_of False n < pointsEarned_of False m) \<and>
      (\<forall>m n. 0 \<le> m \<and> m \<le> n \<longrightarrow> pointsEarned_of False n \<le> pointsEarned_of False m)"
    by (auto simp: pointsEarned_of_def)
  show ?thesis
    using h st' tab mono by blast
qed

theorem pointsEarned_steps_witness:
  "guess sample_app \<noteq> [] \<and> status sample_app = Idle \<and>
   (\<exists>store' st'. handleSubmit units_digest sample_pool sample_storage sample_app = Inr (store', Success, st') \<and>
      attempts sample_app = 2 \<and> scoreHistory sample_app = Scores [100, 75] \<and>
      scoreHistory st' = Scores [100, 75, 50])"
proof -
  have g: "guess sample_app \<noteq> []" "status sample_app = Idle" "attempts sample_app = 2"
    "\<not> showHint sample_app" "scoreHistory sample_app = Scores [100, 75]"
    by (simp_all add: sample_app_def)
  from pointsEarned_steps [OF g(1) g(2) handleSubmit_sample] g
  have "scoreHistory (sample_app\<lparr>score := 225, scoreHistory := Scores [100, 75, 50], puzzlesToday := 3,
                      guess := [], showHint := False, attempts := 0, status := Idle,
                      gameState := Playing\<rparr>) = Scores [100, 75, 50]"
    by auto
  then show ?thesis
    using g handleSubmit_sample by blast
qed

section \<open>Verification\<close>

lemma of_char_less: "(of_char c :: nat) < 256"
  by (metis of_char_mod_256 mod_less_divisor zero_less_numeral)

lemma toLowerCase_unit_idem: "toLowerCase_unit (toLowerCase_unit c) = toLowerCase_unit c"
proof -
  have "(of_char (char_of (of_char c + 32 :: nat)) :: nat) = of_char c + 32"
    if "(of_char c :: nat) \<le> 222"
    using that by (simp add: of_char_of)
  then show ?thesis
    by (auto simp: toLowerCase_unit_def Let_def)
qed

lemma toLowerCase_cleanGuess: "toLowerCase (cleanGuess_of rawGuess) = cleanGuess_of rawGuess"
  unfolding cleanGuess_of_def toLowerCase_def
  by (induction rawGuess) (simp_all add: toLowerCase_unit_idem)

lemma cleanGuess_no_whitespace: "c \<in> set (cleanGuess_of rawGuess) \<Longrightarrow> \<not> is_whitespace c"
  by (simp add: cleanGuess_of_def)

lemma hex_digit_lower: "n < 16 \<Longrightarrow> toLowerCase_unit (hex_digit n) = hex_digit n"
proof -
  assume "n < 16"
  then have "n \<in> set [0..<16]" by simp
  then show ?thesis
    unfolding hex_digit_def
    by (simp add: upt_conv_Cons toLowerCase_unit_def) (elim disjE; simp)
qed

lemma hex_byte_lower: "toLowerCase (hex_byte b) = hex_byte b"
proof -
  have "unat b < 256" using unsigned_less [of b, where 'a = nat] by simp
  then have "unat b div 16 < 16" by simp
  then show ?thesis
    by (simp add: toLowerCase_def hex_byte_def hex_digit_lower)
qed

lemma hex_bytes_lower: "toLowerCase (concat (map hex_byte bytes)) = concat (map hex_byte bytes)"
proof (induction bytes)
  case Nil
  then show ?case by (simp add: toLowerCase_def)
next
  case (Cons b bytes)
  then show ?case
    using hex_byte_lower [of b] by (simp add: toLowerCase_def)
qed

lemma isCorrect_hashed:
  "answerHash p = Some h \<Longrightarrow> h \<noteq> [] \<Longrightarrow>
   isCorrect digest rawGuess p = (hashGuess digest (cleanGuess_of rawGuess) = h)"
  by (auto simp: isCorrect_def truthy_def Let_def)

lemma isCorrect_plain:
  "answerHash p = None \<or> answerHash p = Some [] \<Longrightarrow>
   isCorrect digest rawGuess p = (answer p = Some (cleanGuess_of rawGuess))"
  by (auto simp: isCorrect_def truthy_def Let_def)

text \<open>
  Claim C5, as the code has it. The guess is normalized by lowercasing and by removing
  all white space. If the puzzle has a (non-empty) \<^verbatim>\<open>answerHash\<close>, the guess is correct
  iff the string \<^verbatim>\<open>hashGuess\<close> returns for the normalized guess is identical to the
  stored one; that string is the digest in lowercase hexadecimal digits, or \<^verbatim>\<open>error\<close>
  when the digest throws. The comparison is the exact \<^verbatim>\<open>===\<close> of strings: a stored
  digest with an uppercase letter is matched by no guess whose digest is computed.
  Otherwise the guess is correct iff the normalized guess is identical to the stored
  \<^verbatim>\<open>answer\<close>.
\<close>

theorem isCorrect_exact:
  "(\<forall>c \<in> set (cleanGuess_of rawGuess). \<not> is_whitespace c) \<and>
   toLowerCase (cleanGuess_of rawGuess) = cleanGuess_of rawGuess \<and>
   (\<forall>h. answerHash p = Some h \<and> h \<noteq> [] \<longrightarrow>
      isCorrect digest rawGuess p = (hashGuess digest (cleanGuess_of rawGuess) = h)) \<and>
   (answerHash p = None \<or> answerHash p = Some [] \<longrightarrow>
      isCorrect digest rawGuess p = (answer p = Some (cleanGuess_of rawGuess))) \<and>
   (\<forall>bytes. digest (cleanGuess_of rawGuess) = Some bytes \<longrightarrow>
      hashGuess digest (cleanGuess_of rawGuess) = concat (map hex_byte bytes) \<and>
      toLowerCase (hashGuess digest (cleanGuess_of rawGuess)) = hashGuess digest (cleanGuess_of rawGuess)) \<and>
   (digest (cleanGuess_of rawGuess) = None \<longrightarrow> hashGuess digest (cleanGuess_of rawGuess) = ''error'') \<and>
   (\<forall>h bytes. answerHash p = Some h \<and> toLowerCase h \<noteq> h \<and>
      digest (cleanGuess_of rawGuess) = Some bytes \<longrightarrow> \<not> isCorrect digest rawGuess p)"
proof -
  have hg: "hashGuess digest t = concat (map hex_byte bytes) \<and>
      toLowerCase (hashGuess digest t) = hashGuess digest t" if "digest t = Some bytes" for t bytes
    using that by (simp add: hashGuess_def hex_bytes_lower)
  have err: "hashGuess digest t = ''error''" if "digest t = None" for t
    using that by (simp add: hashGuess_def)
  have upper: "\<not> isCorrect digest rawGuess p"
    if "answerHash p = Some h" "toLowerCase h \<noteq> h" "digest (cleanGuess_of rawGuess) = Some bytes" for h bytes
  proof -
    have "h \<noteq> []" using that(2) by (auto simp: toLowerCase_def)
    moreover have "hashGuess digest (cleanGuess_of rawGuess) \<noteq> h"
      using hg [OF that(3)] that(2) by auto
    ultimately show ?thesis
      using that(1) by (simp add: isCorrect_hashed)
  qed
  show ?thesis
    using cleanGuess_no_whitespace toLowerCase_cleanGuess isCorrect_hashed isCorrect_plain hg err upper
    by blast
qed

lemma hashGuess_key: "hashGuess units_digest ''key'' = ''6b6579''"
  by (simp add: hashGuess_def units_digest_def hex_byte_def hex_digit_def)

lemma cleanGuess_key: "cleanGuess_of ''K e Y'' = ''key''"
  by (simp add: cleanGuess_of_def toLowerCase_def toLowerCase_unit_def is_whitespace_def char_eval)

text \<open>
  Claim C5 as the specification states it fails: the stored digest \<^verbatim>\<open>6B6579\<close> equals
  the digest \<^verbatim>\<open>6b6579\<close> of the normalized guess as a hexadecimal numeral, whatever the
  case, and the guess is not accepted.
\<close>

theorem isCorrect_exact_counterexample:
  "hex_equal_ignoring_case (hashGuess units_digest (cleanGuess_of ''K e Y'')) ''6B6579'' \<and>
   \<not> isCorrect units_digest ''K e Y'' (hashed_puzzle 4 ''6B6579'')"
  by (simp add: cleanGuess_key hashGuess_key hex_equal_ignoring_case_def isCorrect_def
      hashed_puzzle_def truthy_def toLowerCase_def toLowerCase_unit_def char_eval)

theorem isCorrect_exact_witness:
  "isCorrect units_digest ''K e Y'' (hashed_puzzle 4 ''6b6579'') \<and>
   \<not> isCorrect units_digest ''K e Y'' (hashed_puzzle 4 ''6B6579'') \<and>
   isCorrect units_digest ''En ig ma'' (plain_puzzle 1 ''enigma'')"
proof -
  have "isCorrect units_digest ''K e Y'' (hashed_puzzle 4 ''6b6579'') =
      (hashGuess units_digest (cleanGuess_of ''K e Y'') = ''6b6579'')"
    using isCorrect_exact [of "''K e Y''" "hashed_puzzle 4 ''6b6579''" units_digest]
    by (simp add: hashed_puzzle_def)
  then have a: "isCorrect units_digest ''K e Y'' (hashed_puzzle 4 ''6b6579'')"
    by (simp add: cleanGuess_key hashGuess_key)
  have "isCorrect units_digest ''K e Y'' (hashed_puzzle 4 ''6B6579'') =
      (hashGuess units_digest (cleanGuess_of ''K e Y'') = ''6B6579'')"
    using isCorrect_exact [of "''K e Y''" "hashed_puzzle 4 ''6B6579''" units_digest]
    by (simp add: hashed_puzzle_def)
  then have b: "\<not> isCorrect units_digest ''K e Y'' (hashed_puzzle 4 ''6B6579'')"
    by (simp add: cleanGuess_key hashGuess_key)
  have "isCorrect units_digest ''En ig ma'' (plain_puzzle 1 ''enigma'') =
      (answer (plain_puzzle 1 ''enigma'') = Some (cleanGuess_of ''En ig ma''))"
    using isCorrect_exact [of "''En ig ma''" "plain_puzzle 1 ''enigma''" units_digest]
    by (simp add: plain_puzzle_def)
  then have c: "isCorrect units_digest ''En ig ma'' (plain_puzzle 1 ''enigma'')"
    by (simp add: cleanGuess_sample plain_puzzle_def)
  show ?thesis
    using a b c by simp
qed

lemma hex_digest_not_error: "is_hex_digest h \<Longrightarrow> h \<noteq> ''error''"
  by (auto simp: is_hex_digest_def is_hex_char_def)

lemma handleSubmit_wrong:
  assumes "guess st \<noteq> []" and "status st = Idle" and "currentPuzzle_of puzzles st = Some p"
    and "\<not> isCorrect digest (guess st) p"
  shows "handleSubmit digest puzzles store st =
     Inr (store, Error, st\<lparr>attempts := js_add (attempts st) 1, status := Idle, guess := []\<rparr>)"
  using assms by (simp add: handleSubmit_def)

text \<open>
  Claim C6. For a puzzle whose stored \<^verbatim>\<open>answerHash\<close> is a well-formed hexadecimal digest,
  a guess whose digest cannot be computed (the primitive throws or is not there) is not
  correct. The submission does not throw: it ends as a wrong guess does, with the status
  \<^verbatim>\<open>error\<close> shown, one attempt more, the guess cleared and the storage untouched, and
  its result is the one of every wrong guess.
\<close>

theorem digest_failure_not_verified:
  assumes "answerHash p = Some h" and "is_hex_digest h"
    and "digest (cleanGuess_of (guess st)) = None"
    and "guess st \<noteq> []" and "status st = Idle" and "currentPuzzle_of puzzles st = Some p"
  shows "\<not> isCorrect digest (guess st) p \<and>
     handleSubmit digest puzzles store st =
       Inr (store, Error, st\<lparr>attempts := js_add (attempts st) 1, status := Idle, guess := []\<rparr>) \<and>
     (\<forall>digest'. \<not> isCorrect digest' (guess st) p \<longrightarrow>
        handleSubmit digest' puzzles store st = handleSubmit digest puzzles store st)"
proof -
  have ne: "h \<noteq> []" using assms(2) by (simp add: is_hex_digest_def)
  have "hashGuess digest (cleanGuess_of (guess st)) = ''error''"
    using assms(3) by (simp add: hashGuess_def)
  then have wrong: "\<not> isCorrect digest (guess st) p"
    using assms(1) ne hex_digest_not_error [OF assms(2)] by (simp add: isCorrect_hashed)
  show ?thesis
    using wrong handleSubmit_wrong [OF assms(4,5,6)] by simp
qed

theorem digest_failure_not_verified_witness:
  "answerHash (hashed_puzzle 2 ''6162'') = Some ''6162'' \<and> is_hex_digest ''6162'' \<and>
   failing_digest (cleanGuess_of (guess (sample_app\<lparr>puzzlesToday := 1\<rparr>))) = None \<and>
   guess (sample_app\<lparr>puzzlesToday := 1\<rparr>) \<noteq> [] \<and> status (sample_app\<lparr>puzzlesToday := 1\<rparr>) = Idle \<and>
   currentPuzzle_of sample_pool (sample_app\<lparr>puzzlesToday := 1\<rparr>) = Some (hashed_puzzle 2 ''6162'') \<and>
   handleSubmit failing_digest sample_pool sample_storage (sample_app\<lparr>puzzlesToday := 1\<rparr>) =
     Inr (sample_storage, Error, sample_app\<lparr>puzzlesToday := 1, attempts := 3, guess := []\<rparr>)"
proof -
  let ?st = "sample_app\<lparr>puzzlesToday := 1\<rparr>"
  have a: "answerHash (hashed_puzzle 2 ''6162'') = Some ''6162''"
    by (simp add: hashed_puzzle_def)
  have b: "is_hex_digest ''6162''"
    by (simp add: is_hex_digest_def is_hex_char_def)
  have c: "failing_digest (cleanGuess_of (guess ?st)) = None"
    by (simp add: failing_digest_def)
  have d: "guess ?st \<noteq> []" "status ?st = Idle"
    by (simp_all add: sample_app_def)
  have e: "currentPuzzle_of sample_pool ?st = Some (hashed_puzzle 2 ''6162'')"
    by (simp add: currentPuzzle_of_def sample_app_def sample_pool_def index_at_def
        plain_puzzle_def hashed_puzzle_def)
  have f: "?st\<lparr>attempts := js_add (attempts ?st) 1, status := Idle, guess := []\<rparr> =
      sample_app\<lparr>puzzlesToday := 1, attempts := 3, guess := []\<rparr>"
    by (simp add: sample_app_def js_add_exact)
  show ?thesis
    using digest_failure_not_verified
        [of "hashed_puzzle 2 ''6162''" "''6162''" failing_digest ?st sample_pool sample_storage,
         OF a b c d e]
      a b c d e
    by (simp only: f) simp
qed

section \<open>The day index\<close>

text \<open>
  Claim C3 at a change of the clocks. In New York the local midnight of 11 March 2024 is
  23 hours after that of 10 March: at noon of both days \<^verbatim>\<open>getDayIndex\<close> is 69, although
  the local day has increased by one. At noon of 3 and of 4 November 2024 it is 306 and
  308. The index does not increase by exactly 1 at each local midnight.
\<close>

theorem getDayIndex_daylight_saving:
  "getDayIndex new_york_2024 1710086400000 = 69 \<and>
   getDayIndex new_york_2024 1710172800000 = 69 \<and>
   LocalTime new_york_2024 1710086400000 div msPerDay + 1 =
     LocalTime new_york_2024 1710172800000 div msPerDay \<and>
   getDayIndex new_york_2024 1730653200000 = 306 \<and>
   getDayIndex new_york_2024 1730739600000 = 308 \<and>
   LocalTime new_york_2024 1730653200000 div msPerDay + 1 =
     LocalTime new_york_2024 1730739600000 div msPerDay"
  by (simp add: getDayIndex_def setHours0_def new_york_2024_def msPerDay_def Let_def)

text \<open>
  In a zone whose offset from UTC never changes, the index is the number of local days
  since the epoch: never negative from the epoch on, non-decreasing, and one more a day
  later.
\<close>

lemma getDayIndex_fixed_offset:
  "getDayIndex (fixed_offset c) now = (now + c) div 86400000 - 19723"
proof -
  have "((now + c) div 86400000 * 86400000 - c - (1704067200000 - c)) div 86400000 =
      ((now + c) div 86400000 - 19723) * 86400000 div 86400000"
    by (simp add: algebra_simps)
  then show ?thesis
    by (simp add: getDayIndex_def setHours0_def fixed_offset_def msPerDay_def Let_def)
qed

lemma getDayIndex_fixed_offset_props:
  "(UTC (fixed_offset c) 1704067200000 \<le> now \<longrightarrow> 0 \<le> getDayIndex (fixed_offset c) now) \<and>
   (now \<le> now' \<longrightarrow> getDayIndex (fixed_offset c) now \<le> getDayIndex (fixed_offset c) now') \<and>
   getDayIndex (fixed_offset c) (now + 86400000) = getDayIndex (fixed_offset c) now + 1"
proof -
  have nonneg: "0 \<le> (now + c) div 86400000 - 19723" if "1704067200000 - c \<le> now"
  proof -
    have "19723 * 86400000 \<le> now + c" using that by simp
    then have "(19723 * 86400000) div 86400000 \<le> (now + c) div (86400000::int)"
      by (intro zdiv_mono1) simp_all
    then show ?thesis by simp
  qed
  have mono: "(now + c) div 86400000 \<le> (now' + c) div 86400000" if "now \<le> now'"
    using that by (simp add: zdiv_mono1)
  have step: "(now + 86400000 + c) div 86400000 = (now + c) div 86400000 + 1"
    using div_add_self2 [of 86400000 "now + c"] by (simp add: algebra_simps)
  show ?thesis
    using nonneg mono step
    by (simp add: getDayIndex_fixed_offset) (simp add: fixed_offset_def)
qed

lemma getDayIndex_formula:
  "getDayIndex tz now = (setHours0 tz now - UTC tz 1704067200000) div 86400000"
  by (simp add: getDayIndex_def Let_def)

section \<open>Numbers and arrays read back from their strings\<close>

lemma of_char_digit_char: "d < 10 \<Longrightarrow> (of_char (digit_char d) :: nat) = 48 + d"
  by (simp add: digit_char_def of_char_of)

lemma is_digit_digit_char: "d < 10 \<Longrightarrow> is_digit (digit_char d)"
  by (simp add: is_digit_def of_char_digit_char)

lemma digit_char_eqD: "d < 10 \<Longrightarrow> digit_char d = c \<Longrightarrow> (of_char c :: nat) = 48 + d"
  using of_char_digit_char by auto

lemma digit_char_not_special:
  assumes "d < 10"
  shows "digit_char d \<noteq> CHR '','' \<and> digit_char d \<noteq> CHR ''-'' \<and> digit_char d \<noteq> CHR ''+'' \<and>
     \<not> is_whitespace (digit_char d)"
proof -
  have "digit_char d \<noteq> CHR '',''"
    using digit_char_eqD [OF assms, of "CHR '',''"] by auto
  moreover have "digit_char d \<noteq> CHR ''-''"
    using digit_char_eqD [OF assms, of "CHR ''-''"] by auto
  moreover have "digit_char d \<noteq> CHR ''+''"
    using digit_char_eqD [OF assms, of "CHR ''+''"] by auto
  moreover have "\<not> is_whitespace (digit_char d)"
    using assms by (simp add: is_whitespace_def of_char_digit_char [OF assms])
  ultimately show ?thesis by simp
qed

lemma digit_char_zero: "d < 10 \<Longrightarrow> (digit_char d = CHR ''0'') = (d = 0)"
proof
  assume "d < 10" "digit_char d = CHR ''0''"
  then show "d = 0"
    using digit_char_eqD [of d "CHR ''0''"] by simp
next
  assume "d = 0"
  then show "digit_char d = CHR ''0''"
    by (simp add: digit_char_def char_eval)
qed

lemma string_of_nat_props:
  "string_of_nat n \<noteq> [] \<and> list_all is_digit (string_of_nat n) \<and>
   digits_value (string_of_nat n) = n \<and>
   (hd (string_of_nat n) = CHR ''0'' \<longrightarrow> n = 0) \<and>
   (n < 10 \<longrightarrow> length (string_of_nat n) = 1) \<and>
   CHR '','' \<notin> set (string_of_nat n) \<and>
   hd (string_of_nat n) \<noteq> CHR ''-'' \<and> hd (string_of_nat n) \<noteq> CHR ''+'' \<and>
   \<not> is_whitespace (hd (string_of_nat n))"
proof (induction n rule: string_of_nat.induct)
  case (1 n)
  show ?case
  proof (cases "n < 10")
    case True
    then have s: "string_of_nat n = [digit_char n]"
      by (simp add: string_of_nat.simps)
    show ?thesis
      using True digit_char_not_special [OF True] digit_char_zero [OF True]
      by (auto simp: s is_digit_digit_char digits_value_def of_char_digit_char)
  next
    case False
    then have s: "string_of_nat n = string_of_nat (n div 10) @ [digit_char (n mod 10)]"
      by (subst string_of_nat.simps) simp
    have ih: "string_of_nat (n div 10) \<noteq> [] \<and> list_all is_digit (string_of_nat (n div 10)) \<and>
       digits_value (string_of_nat (n div 10)) = n div 10 \<and>
       (hd (string_of_nat (n div 10)) = CHR ''0'' \<longrightarrow> n div 10 = 0) \<and>
       CHR '','' \<notin> set (string_of_nat (n div 10)) \<and>
       hd (string_of_nat (n div 10)) \<noteq> CHR ''-'' \<and> hd (string_of_nat (n div 10)) \<noteq> CHR ''+'' \<and>
       \<not> is_whitespace (hd (string_of_nat (n div 10)))"
      using "1.IH" False by simp
    have m: "n mod 10 < 10" by simp
    have dv: "digits_value (string_of_nat (n div 10) @ [digit_char (n mod 10)]) = n"
      using ih by (simp add: digits_value_def of_char_digit_char)
    have n0: "n div 10 \<noteq> 0" using False by simp
    show ?thesis
      using False ih digit_char_not_special [OF m] n0
      unfolding s dv by (auto simp: is_digit_digit_char)
  qed
qed

lemma takeWhile_all: "list_all P xs \<Longrightarrow> takeWhile P xs = xs"
  by (induction xs) simp_all

lemma parseInt_Number_toString:
  assumes "\<bar>n\<bar> < 2 ^ 53"
  shows "parseInt (Some (Number_toString n)) = Some n"
proof (cases "n < 0")
  case True
  define ds where "ds = string_of_nat (nat (- n))"
  have p: "ds \<noteq> []" "list_all is_digit ds" "digits_value ds = nat (- n)"
    using string_of_nat_props [of "nat (- n)"] by (simp_all add: ds_def)
  have ws: "\<not> is_whitespace CHR ''-''" by (simp add: is_whitespace_def)
  have "nat (- n) < 2 ^ 53"
    using assms True by (simp add: nat_less_iff)
  then have rd: "round53 (nat (- n)) = nat (- n)"
    by (rule round53_exact)
  have "parseInt (Some (CHR ''-'' # ds)) = Some (- int (digits_value ds))"
    using p ws rd True by (simp add: parseInt_def takeWhile_all)
  then show ?thesis
    using True p by (simp add: Number_toString_def ds_def)
next
  case False
  define ds where "ds = string_of_nat (nat n)"
  have p: "ds \<noteq> []" "list_all is_digit ds" "digits_value ds = nat n"
    "hd ds \<noteq> CHR ''-''" "hd ds \<noteq> CHR ''+''" "\<not> is_whitespace (hd ds)"
    using string_of_nat_props [of "nat n"] by (simp_all add: ds_def)
  then obtain c r where cr: "ds = c # r" by (cases ds) auto
  have "nat n < 2 ^ 53"
    using assms False by (simp add: nat_less_iff)
  then have rd: "round53 (nat n) = nat n"
    by (rule round53_exact)
  have "parseInt (Some ds) = Some (int (digits_value ds))"
    using p rd False unfolding cr by (simp add: parseInt_def takeWhile_all)
  then show ?thesis
    using False p by (simp add: Number_toString_def ds_def)
qed

lemma int_literal_Number_toString: "int_literal (Number_toString n) = Some n"
proof (cases "n < 0")
  case True
  define ds where "ds = string_of_nat (nat (- n))"
  have p: "ds \<noteq> []" "list_all is_digit ds" "digits_value ds = nat (- n)"
    "hd ds = CHR ''0'' \<longrightarrow> nat (- n) = 0"
    using string_of_nat_props [of "nat (- n)"] by (simp_all add: ds_def)
  have "hd ds \<noteq> CHR ''0''" using p(4) True by auto
  then have "int_literal (CHR ''-'' # ds) = Some (- int (digits_value ds))"
    using p by (simp add: int_literal_def)
  then show ?thesis
    using True p by (simp add: Number_toString_def ds_def)
next
  case False
  define ds where "ds = string_of_nat (nat n)"
  have p: "ds \<noteq> []" "list_all is_digit ds" "digits_value ds = nat n"
    "hd ds \<noteq> CHR ''-''" "hd ds = CHR ''0'' \<longrightarrow> nat n = 0" "nat n < 10 \<longrightarrow> length ds = 1"
    using string_of_nat_props [of "nat n"] by (simp_all add: ds_def)
  then obtain c r where cr: "ds = c # r" by (cases ds) auto
  have "length ds = 1 \<or> hd ds \<noteq> CHR ''0''" using p(5,6) by auto
  then have "int_literal ds = Some (int (digits_value ds))"
    using p unfolding cr by (simp add: int_literal_def)
  then show ?thesis
    using False p by (simp add: Number_toString_def ds_def)
qed

lemma Number_toString_props: "Number_toString n \<noteq> [] \<and> CHR '','' \<notin> set (Number_toString n)"
  using string_of_nat_props [of "nat n"] string_of_nat_props [of "nat (- n)"]
  by (simp add: Number_toString_def)

lemma split_commas_no_comma: "CHR '','' \<notin> set p \<Longrightarrow> split_commas p = [p]"
  by (induction p) auto

lemma split_commas_append:
  "CHR '','' \<notin> set p \<Longrightarrow> split_commas (p @ CHR '','' # rest) = p # split_commas rest"
  by (induction p) auto

lemma split_commas_join:
  "ps \<noteq> [] \<Longrightarrow> \<forall>p \<in> set ps. CHR '','' \<notin> set p \<Longrightarrow> split_commas (join_comma ps) = ps"
proof (induction ps rule: join_comma.induct)
  case 1
  then show ?case by simp
next
  case (2 x)
  then show ?case by (simp add: split_commas_no_comma)
next
  case (3 x y ys)
  then show ?case by (simp add: split_commas_append)
qed

lemma join_comma_nonempty: "ps \<noteq> [] \<Longrightarrow> \<forall>p \<in> set ps. p \<noteq> [] \<Longrightarrow> join_comma ps \<noteq> []"
  by (induction ps rule: join_comma.induct) auto

lemma those_ints_Some: "those_ints (map Some xs) = Some xs"
  by (simp add: those_ints_def list_all_iff comp_def)

lemma JSON_parse_written_stringify:
  "JSON_parse_written (JSON_stringify xs) = Some (Array_of_ints xs)"
proof (cases "xs = []")
  case True
  then show ?thesis by (simp add: JSON_stringify_def JSON_parse_written_def)
next
  case False
  define ps where "ps = map Number_toString xs"
  have ps: "ps \<noteq> []" "\<forall>p \<in> set ps. CHR '','' \<notin> set p" "\<forall>p \<in> set ps. p \<noteq> []"
    using False Number_toString_props by (auto simp: ps_def)
  define body where "body = join_comma ps"
  have body: "body \<noteq> []" using join_comma_nonempty [OF ps(1,3)] by (simp add: body_def)
  have s: "JSON_stringify xs = CHR ''['' # body @ '']''"
    by (simp add: JSON_stringify_def body_def ps_def)
  have inner: "butlast (tl (JSON_stringify xs)) = body"
    by (simp add: s butlast_append)
  have lits: "map int_literal (split_commas body) = map Some xs"
    unfolding body_def split_commas_join [OF ps(1,2)]
    by (simp add: ps_def int_literal_Number_toString)
  have "JSON_stringify xs \<noteq> ''null''" "JSON_stringify xs \<noteq> ''[]''"
    "2 \<le> length (JSON_stringify xs)" "hd (JSON_stringify xs) = CHR ''[''"
    "last (JSON_stringify xs) = CHR '']''"
    using body by (simp_all add: s)
  then show ?thesis
    unfolding JSON_parse_written_def inner lits those_ints_Some by simp
qed

lemma reads_back_written: "reads_back JSON_parse_written"
  by (simp add: reads_back_def JSON_parse_written_stringify) (simp add: JSON_parse_written_def)

section \<open>Loading\<close>

lemma load_throws:
  "JSON_parse (history_text store) = None \<Longrightarrow>
   load JSON_parse todayStr loadedPuzzles store st = Inl SyntaxError"
  by (simp add: load_def Let_def)

lemma load_reset:
  "JSON_parse (history_text store) = Some v \<Longrightarrow> gchq_date store \<noteq> Some todayStr \<Longrightarrow>
   load JSON_parse todayStr loadedPuzzles store st =
     Inr (reset_storage todayStr,
          st\<lparr>todaysPuzzles := loadedPuzzles, puzzlesToday := 0, score := 0,
             scoreHistory := Scores [], gameState := gameState st\<rparr>)"
  by (simp add: load_def Let_def)

lemma load_resume:
  "JSON_parse (history_text store) = Some v \<Longrightarrow> gchq_date store = Some todayStr \<Longrightarrow>
   load JSON_parse todayStr loadedPuzzles store st =
     Inr (store,
          st\<lparr>todaysPuzzles := loadedPuzzles,
             puzzlesToday := or0 (parseInt (gchq_puzzles_today store)),
             score := or0 (parseInt (gchq_score store)),
             scoreHistory := or_empty v,
             gameState :=
               (if 5 \<le> or0 (parseInt (gchq_puzzles_today store)) then Done_for_day
                else if 0 < or0 (parseInt (gchq_puzzles_today store)) then Playing
                else gameState st)\<rparr>)"
  by (simp add: load_def Let_def)

lemma parseInt_zero: "parseInt (Some ''0'') = Some 0"
  using parseInt_Number_toString [of 0]
  by (simp add: Number_toString_def string_of_nat.simps digit_char_def char_eval)

lemma reset_storage_fields:
  "gchq_date (reset_storage t) = Some t" "history_text (reset_storage t) = JSON_stringify []"
  "gchq_puzzles_today (reset_storage t) = Some ''0''" "gchq_score (reset_storage t) = Some ''0''"
  by (simp_all add: reset_storage_def history_text_def)

text \<open>
  The loads that do not throw. When the parser returns a value for the stored history
  (the key is absent, or its text is JSON): if the stored date is not today's date
  string, the session is reset to the date of today, 0 puzzles, the score 0 and the
  empty history, and the reset is what the storage holds afterwards; if the stored date
  is today's, the storage is left as it is and the session in memory is the stored one;
  and loading once more on the same date changes neither the storage nor the counter,
  the score and the history. The host's parser is assumed to read the text \<^verbatim>\<open>[]\<close> as
  the empty array.
\<close>

theorem load_session:
  assumes "JSON_parse (history_text store) = Some v"
    and "JSON_parse (JSON_stringify []) = Some (Array_of_ints [])"
  shows "(gchq_date store \<noteq> Some todayStr \<longrightarrow>
       load JSON_parse todayStr loadedPuzzles store st =
         Inr (reset_storage todayStr,
              st\<lparr>todaysPuzzles := loadedPuzzles, puzzlesToday := 0, score := 0,
                 scoreHistory := Scores [], gameState := gameState st\<rparr>)) \<and>
     (gchq_date store = Some todayStr \<longrightarrow>
       (\<exists>st1. load JSON_parse todayStr loadedPuzzles store st = Inr (store, st1) \<and>
          puzzlesToday st1 = or0 (parseInt (gchq_puzzles_today store)) \<and>
          score st1 = or0 (parseInt (gchq_score store)) \<and>
          scoreHistory st1 = or_empty v)) \<and>
     (\<exists>store1 st1. load JSON_parse todayStr loadedPuzzles store st = Inr (store1, st1) \<and>
        (\<forall>loadedPuzzles' st'. \<exists>st2.
           load JSON_parse todayStr loadedPuzzles' store1 st' = Inr (store1, st2) \<and>
           puzzlesToday st2 = puzzlesToday st1 \<and> score st2 = score st1 \<and>
           scoreHistory st2 = scoreHistory st1))"
proof (cases "gchq_date store = Some todayStr")
  case True
  note r = load_resume [of JSON_parse store v todayStr, OF assms(1) True]
  show ?thesis
    using True by (simp add: r)
next
  case False
  note r = load_reset [of JSON_parse store v todayStr, OF assms(1) False]
  have again: "load JSON_parse todayStr lp' (reset_storage todayStr) st' =
      Inr (reset_storage todayStr,
          st'\<lparr>todaysPuzzles := lp', puzzlesToday := 0, score := 0,
             scoreHistory := Scores [], gameState := gameState st'\<rparr>)" for lp' st'
    using load_resume [of JSON_parse "reset_storage todayStr" "Array_of_ints []" todayStr lp' st']
      assms(2)
    by (simp add: reset_storage_fields parseInt_zero or0_def or_empty_def)
  show ?thesis
    using False by (simp add: r again)
qed

lemma JSON_parse_written_sample: "JSON_parse_written ''[100,75]'' = Some (Array_of_ints [100, 75])"
  using JSON_parse_written_stringify [of "[100, 75]"]
  by (simp add: JSON_stringify_def Number_toString_def string_of_nat.simps digit_char_def char_eval)

lemma parseInt_sample: "parseInt (Some ''2'') = Some 2" "parseInt (Some ''175'') = Some 175"
  using parseInt_Number_toString [of 2] parseInt_Number_toString [of 175]
  by (simp_all add: Number_toString_def string_of_nat.simps digit_char_def char_eval)

theorem load_session_witness:
  "JSON_parse_written (history_text sample_storage) = Some (Array_of_ints [100, 75]) \<and>
   JSON_parse_written (JSON_stringify []) = Some (Array_of_ints []) \<and>
   (\<exists>st1. load JSON_parse_written ''Mon Mar 11 2024'' [] sample_storage initial_app
            = Inr (sample_storage, st1) \<and>
      puzzlesToday st1 = 2 \<and> score st1 = 175 \<and> scoreHistory st1 = Scores [100, 75]) \<and>
   load JSON_parse_written ''Tue Mar 12 2024'' [] sample_storage initial_app =
     Inr (reset_storage ''Tue Mar 12 2024'', initial_app)"
proof -
  have a: "JSON_parse_written (history_text sample_storage) = Some (Array_of_ints [100, 75])"
    by (simp add: history_text_def sample_storage_def JSON_parse_written_sample)
  have b: "JSON_parse_written (JSON_stringify []) = Some (Array_of_ints [])"
    by (rule JSON_parse_written_stringify)
  have d: "gchq_date sample_storage = Some ''Mon Mar 11 2024''"
    "gchq_date sample_storage \<noteq> Some ''Tue Mar 12 2024''"
    "or0 (parseInt (gchq_puzzles_today sample_storage)) = 2"
    "or0 (parseInt (gchq_score sample_storage)) = 175"
    by (simp_all add: sample_storage_def parseInt_sample or0_def)
  have i: "initial_app\<lparr>todaysPuzzles := [], puzzlesToday := 0, score := 0,
      scoreHistory := Scores [], gameState := gameState initial_app\<rparr> = initial_app"
    by (simp add: initial_app_def)
  show ?thesis
    using load_session [OF a b, of "''Mon Mar 11 2024''" "[]" initial_app]
      load_session [OF a b, of "''Tue Mar 12 2024''" "[]" initial_app] a b d
    by (simp add: i or_empty_def)
qed

text \<open>
  Claim C8 at a stored date of the day before with a history that is not JSON. The
  stored date is not today's, and the claim has the session reset and the reset stored.
  The effect calls \<^verbatim>\<open>JSON.parse\<close> on the stored history before it compares the dates, and
  nothing catches what it throws: the load ends with the \<^verbatim>\<open>SyntaxError\<close>, the session of
  the day before is not reset and nothing is stored.
\<close>

theorem load_stale_broken_history:
  "gchq_date stale_broken_storage \<noteq> Some ''Mon Mar 11 2024'' \<and>
   load JSON_parse_written ''Mon Mar 11 2024'' [] stale_broken_storage initial_app = Inl SyntaxError"
proof -
  have "JSON_parse_written (history_text stale_broken_storage) = None"
    by (simp add: history_text_def stale_broken_storage_def JSON_parse_written_def)
  then show ?thesis
    by (simp add: load_throws) (simp add: stale_broken_storage_def)
qed

text \<open>
  Claim C9 at a stored history that is not JSON: \<^verbatim>\<open>JSON.parse\<close> throws inside the effect,
  no default is substituted and no state is set. A counter with digits in front,
  \<^verbatim>\<open>12abc\<close>, is read as 12 and not as absent; one with no digit in front and a missing
  one are read as 0.
\<close>

theorem load_broken_history:
  "load JSON_parse_written ''Mon Mar 11 2024'' [] broken_storage initial_app = Inl SyntaxError \<and>
   or0 (parseInt (Some ''12abc'')) = 12 \<and> or0 (parseInt (Some ''abc'')) = 0 \<and>
   or0 (parseInt None) = 0"
proof -
  have "JSON_parse_written (history_text broken_storage) = None"
    by (simp add: history_text_def broken_storage_def sample_storage_def JSON_parse_written_def)
  then have "load JSON_parse_written ''Mon Mar 11 2024'' [] broken_storage initial_app = Inl SyntaxError"
    by (simp add: load_throws)
  moreover have "or0 (parseInt (Some ''12abc'')) = 12" "or0 (parseInt (Some ''abc'')) = 0"
    "or0 (parseInt None) = 0"
    by (simp_all add: or0_def parseInt_def is_whitespace_def is_digit_def digits_value_def
        round53_exact)
  ultimately show ?thesis by simp
qed

section \<open>The invariant of the session\<close>

lemma parseInt_null: "parseInt None = None"
  by (simp add: parseInt_def is_whitespace_def is_digit_def)

lemma persisted_session_empty:
  "reads_back JSON_parse \<Longrightarrow> persisted_session JSON_parse empty_storage = Some (0, 0, [])"
  by (simp add: persisted_session_def reads_back_def empty_storage_def history_text_def
      or_empty_def parseInt_null or0_def)

lemma persisted_session_reset:
  "reads_back JSON_parse \<Longrightarrow> persisted_session JSON_parse (reset_storage t) = Some (0, 0, [])"
  by (simp add: persisted_session_def reads_back_def reset_storage_fields or_empty_def
      parseInt_zero or0_def)

lemma session_ok_bound:
  "session_ok p s h \<Longrightarrow> 0 \<le> s \<and> s \<le> 100 * p \<and> 0 \<le> p"
proof (induction h arbitrary: p s)
  case Nil
  then show ?case by (simp add: session_ok_def)
next
  case (Cons x h)
  from Cons.prems have "session_ok (p - 1) (s - x) h" and "0 \<le> x" and "x \<le> 100"
    by (auto simp: session_ok_def)
  with Cons.IH [of "p - 1" "s - x"] show ?case by simp
qed

text \<open>
  A session of the invariant with at most five puzzles is read back from the storage as
  it was written: its numbers are far below \<open>2 ^ 53\<close>.
\<close>

lemma session_ok_small:
  assumes "session_ok p s h" and "p \<le> 5"
  shows "\<bar>p\<bar> < 2 ^ 53 \<and> \<bar>s\<bar> < 2 ^ 53 \<and> list_all (\<lambda>x. \<bar>x\<bar> < 2 ^ 53) h"
proof -
  from session_ok_bound [OF assms(1)] assms(2)
  have "\<bar>p\<bar> < 2 ^ 53" "\<bar>s\<bar> < 2 ^ 53" by simp_all
  moreover have "(\<bar>x\<bar> :: int) < 2 ^ 53" if "x \<in> set [0, 25, 50, 75, 100]" for x
    using that by auto
  then have "list_all (\<lambda>x. \<bar>x\<bar> < 2 ^ 53) h"
    using assms(1) by (auto simp: session_ok_def list_all_iff)
  ultimately show ?thesis by simp
qed

lemma persisted_session_written:
  assumes "reads_back JSON_parse" and "session_ok p s h" and "p \<le> 5"
  shows "persisted_session JSON_parse
      (store\<lparr>gchq_score := Some (Number_toString s), gchq_history := Some (JSON_stringify h),
             gchq_puzzles_today := Some (Number_toString p)\<rparr>) = Some (p, s, h)"
  using assms(1) session_ok_small [OF assms(2,3)]
  by (simp add: persisted_session_def reads_back_def history_text_def or_empty_def
      parseInt_Number_toString or0_def)

lemma pointsEarned_of_award: "pointsEarned_of b n \<in> set [0, 25, 50, 75, 100]"
  by (simp add: pointsEarned_of_def)

lemma session_ok_append:
  "session_ok p s h \<Longrightarrow> a \<in> set [0, 25, 50, 75, 100] \<Longrightarrow> session_ok (p + 1) (s + a) (h @ [a])"
  by (auto simp: session_ok_def)

lemma session_inv_start:
  "reads_back JSON_parse \<Longrightarrow> session_inv JSON_parse empty_storage initial_app"
  by (simp add: session_inv_def initial_app_def persisted_session_empty session_ok_def)

lemma length_todaysIds_of: "length (todaysIds_of d order) = 5"
  by (simp add: todaysIds_of_map)

lemma session_inv_loaded:
  assumes rb: "reads_back JSON_parse" and inv: "session_inv JSON_parse store st"
    and ld: "load JSON_parse todayStr (todaysIds_of d order) store initial_app = Inr (store', st')"
  shows "session_inv JSON_parse store' st'"
proof -
  from inv obtain h where h: "scoreHistory st = Scores h"
    and ok: "session_ok (puzzlesToday st) (score st) h"
    and ps: "persisted_session JSON_parse store = Some (puzzlesToday st, score st, h)"
    by (auto simp: session_inv_def split: history.splits)
  from ps obtain v where v: "JSON_parse (history_text store) = Some v"
    and oe: "or_empty v = Scores h"
    and pp: "or0 (parseInt (gchq_puzzles_today store)) = puzzlesToday st"
    and sc: "or0 (parseInt (gchq_score store)) = score st"
    by (auto simp: persisted_session_def split: option.splits history.splits)
  show ?thesis
  proof (cases "gchq_date store = Some todayStr")
    case True
    define X where "X = initial_app\<lparr>todaysPuzzles := todaysIds_of d order,
             puzzlesToday := or0 (parseInt (gchq_puzzles_today store)),
             score := or0 (parseInt (gchq_score store)),
             scoreHistory := or_empty v,
             gameState :=
               (if 5 \<le> or0 (parseInt (gchq_puzzles_today store)) then Done_for_day
                else if 0 < or0 (parseInt (gchq_puzzles_today store)) then Playing
                else gameState initial_app)\<rparr>"
    have "Inr (store', st') = (Inr (store, X) :: exn + storage \<times> app)"
      unfolding X_def ld [symmetric]
      by (rule load_resume [of JSON_parse store v todayStr, OF v True])
    then have "store' = store" and "st' = X"
      by simp_all
    then show ?thesis
      using ok ps by (simp add: X_def session_inv_def initial_app_def length_todaysIds_of pp sc oe)
  next
    case False
    define X where "X = initial_app\<lparr>todaysPuzzles := todaysIds_of d order, puzzlesToday := 0,
             score := 0, scoreHistory := Scores [], gameState := gameState initial_app\<rparr>"
    have "Inr (store', st') = (Inr (reset_storage todayStr, X) :: exn + storage \<times> app)"
      unfolding X_def ld [symmetric]
      by (rule load_reset [of JSON_parse store v todayStr, OF v False])
    then have "store' = reset_storage todayStr" and "st' = X"
      by simp_all
    then show ?thesis
      using rb by (simp add: X_def session_inv_def initial_app_def length_todaysIds_of
          persisted_session_reset session_ok_def)
  qed
qed

lemma currentPuzzle_of_bound:
  assumes "currentPuzzle_of puzzles st = Some p" and "length (todaysPuzzles st) \<le> 5"
  shows "puzzlesToday st < 5"
proof -
  from assms(1) have "puzzlesToday st < int (length (todaysPuzzles st))"
    by (auto simp: currentPuzzle_of_def index_at_def split: option.splits if_splits)
  with assms(2) show ?thesis by simp
qed

text \<open>A completion from a state of the invariant.\<close>

lemma handleSubmit_completion:
  assumes rb: "reads_back JSON_parse" and inv: "session_inv JSON_parse store st"
    and g: "guess st \<noteq> []"
    and p: "currentPuzzle_of puzzles st = Some p" and c: "isCorrect digest (guess st) p"
  shows "\<exists>h. scoreHistory st = Scores h \<and>
     handleSubmit digest puzzles store st =
       Inr (store\<lparr>gchq_score := Some (Number_toString (score st + pointsEarned_of (showHint st) (attempts st))),
                  gchq_history := Some (JSON_stringify (h @ [pointsEarned_of (showHint st) (attempts st)])),
                  gchq_puzzles_today := Some (Number_toString (puzzlesToday st + 1))\<rparr>,
            Success,
            st\<lparr>score := score st + pointsEarned_of (showHint st) (attempts st),
               scoreHistory := Scores (h @ [pointsEarned_of (showHint st) (attempts st)]),
               puzzlesToday := puzzlesToday st + 1,
               guess := [], showHint := False, attempts := 0, status := Idle,
               gameState := (if 5 \<le> puzzlesToday st + 1 then Done_for_day else gameState st)\<rparr>)"
proof -
  from inv obtain h where h: "scoreHistory st = Scores h"
    and ok: "session_ok (puzzlesToday st) (score st) h"
    and idle: "status st = Idle" and len: "length (todaysPuzzles st) \<le> 5"
    by (auto simp: session_inv_def split: history.splits)
  from p have "puzzlesToday st < int (length (todaysPuzzles st))"
    by (auto simp: currentPuzzle_of_def index_at_def split: option.splits if_splits)
  with len have pt: "puzzlesToday st < 5" by simp
  from session_ok_bound [OF ok] pt have sb: "0 \<le> score st" "score st \<le> 500" "0 \<le> puzzlesToday st"
    by simp_all
  have aw: "0 \<le> pointsEarned_of (showHint st) (attempts st)"
    "pointsEarned_of (showHint st) (attempts st) \<le> 100"
    by (simp_all add: pointsEarned_of_def)
  have e1: "js_add (score st) (pointsEarned_of (showHint st) (attempts st)) =
      score st + pointsEarned_of (showHint st) (attempts st)"
    using sb aw by (intro js_add_exact) simp
  have e2: "js_add (puzzlesToday st) 1 = puzzlesToday st + 1"
    using sb pt by (intro js_add_exact) simp
  show ?thesis
    using g idle p c h by (simp add: handleSubmit_def Let_def e1 e2)
qed

lemma session_inv_submitted:
  assumes rb: "reads_back JSON_parse" and inv: "session_inv JSON_parse store st"
    and hs: "handleSubmit digest puzzles store st = Inr (store', shown, st')"
  shows "session_inv JSON_parse store' st'"
proof (cases "guess st = []")
  case True
  then have "store' = store" "st' = st"
    using hs by (simp_all add: handleSubmit_def)
  then show ?thesis using inv by simp
next
  case False
  from inv obtain h where h: "scoreHistory st = Scores h"
    and ok: "session_ok (puzzlesToday st) (score st) h"
    and ps: "persisted_session JSON_parse store = Some (puzzlesToday st, score st, h)"
    and idle: "status st = Idle" and len: "length (todaysPuzzles st) \<le> 5"
    by (auto simp: session_inv_def split: history.splits)
  from hs False idle obtain p where p: "currentPuzzle_of puzzles st = Some p"
    by (auto simp: handleSubmit_def split: option.splits)
  show ?thesis
  proof (cases "isCorrect digest (guess st) p")
    case True
    from handleSubmit_completion [OF rb inv False p True] hs h
    have s': "store' = store\<lparr>gchq_score := Some (Number_toString (score st + pointsEarned_of (showHint st) (attempts st))),
                  gchq_history := Some (JSON_stringify (h @ [pointsEarned_of (showHint st) (attempts st)])),
                  gchq_puzzles_today := Some (Number_toString (puzzlesToday st + 1))\<rparr>"
      and t': "st' = st\<lparr>score := score st + pointsEarned_of (showHint st) (attempts st),
               scoreHistory := Scores (h @ [pointsEarned_of (showHint st) (attempts st)]),
               puzzlesToday := puzzlesToday st + 1,
               guess := [], showHint := False, attempts := 0, status := Idle,
               gameState := (if 5 \<le> puzzlesToday st + 1 then Done_for_day else gameState st)\<rparr>"
      by simp_all
    have pt: "puzzlesToday st + 1 \<le> 5"
      using currentPuzzle_of_bound [OF p len] by simp
    note ok' = session_ok_append [OF ok pointsEarned_of_award, of "showHint st" "attempts st"]
    show ?thesis
      unfolding s' t'
      using ok' len
      by (simp add: session_inv_def persisted_session_written [OF rb ok' pt])
  next
    case wrong: False
    from hs have "store' = store"
      "st' = st\<lparr>attempts := js_add (attempts st) 1, status := Idle, guess := []\<rparr>"
      using False idle p wrong by (simp_all add: handleSubmit_def)
    then show ?thesis
      using ok ps len h by (simp add: session_inv_def)
  qed
qed

lemma reachable_session_inv:
  assumes "reads_back JSON_parse" and "reachable JSON_parse digest puzzles store st"
  shows "session_inv JSON_parse store st"
  using assms(2)
proof (induction rule: reachable.induct)
  case start
  then show ?case by (rule session_inv_start [OF assms(1)])
next
  case (loaded store st todayStr dayIndex store' st')
  then show ?case using session_inv_loaded [OF assms(1)] by blast
next
  case (screen store st g)
  then show ?case by (auto simp: session_inv_def split: history.splits)
next
  case (typed store st text_typed)
  then show ?case by (auto simp: session_inv_def split: history.splits)
next
  case (hinted store st)
  then show ?case by (auto simp: session_inv_def split: history.splits)
next
  case (submitted store st store' shown st')
  then show ?case using session_inv_submitted [OF assms(1)] by blast
qed

text \<open>
  Claim C10. In every state a player can reach from an empty storage (with a host parser
  that reads back what \<^verbatim>\<open>JSON.stringify\<close> writes), the session in memory and the session
  the storage holds are the same, the score is the sum of the history, the counter is its
  length and every entry is one of 0, 25, 50, 75 and 100; and every completion from such
  a state appends exactly one entry, an award, adds exactly that award to the score, adds
  exactly 1 to the counter, and leaves memory and storage in a state with the same
  properties.
\<close>

theorem session_invariant:
  assumes "reads_back JSON_parse" and "reachable JSON_parse digest puzzles store st"
  shows "(\<exists>h. scoreHistory st = Scores h \<and> session_ok (puzzlesToday st) (score st) h \<and>
        persisted_session JSON_parse store = Some (puzzlesToday st, score st, h)) \<and>
     (\<forall>store' st'. guess st \<noteq> [] \<and>
        handleSubmit digest puzzles store st = Inr (store', Success, st') \<longrightarrow>
        (\<exists>h award. scoreHistory st = Scores h \<and> award \<in> set [0, 25, 50, 75, 100] \<and>
           scoreHistory st' = Scores (h @ [award]) \<and> score st' = score st + award \<and>
           puzzlesToday st' = puzzlesToday st + 1 \<and>
           session_ok (puzzlesToday st') (score st') (h @ [award]) \<and>
           persisted_session JSON_parse store' = Some (puzzlesToday st', score st', h @ [award])))"
proof -
  note inv = reachable_session_inv [OF assms]
  from inv obtain h where h: "scoreHistory st = Scores h"
    and ok: "session_ok (puzzlesToday st) (score st) h"
    and ps: "persisted_session JSON_parse store = Some (puzzlesToday st, score st, h)"
    and idle: "status st = Idle" and len: "length (todaysPuzzles st) \<le> 5"
    by (auto simp: session_inv_def split: history.splits)
  have step: "\<exists>h award. scoreHistory st = Scores h \<and> award \<in> set [0, 25, 50, 75, 100] \<and>
           scoreHistory st' = Scores (h @ [award]) \<and> score st' = score st + award \<and>
           puzzlesToday st' = puzzlesToday st + 1 \<and>
           session_ok (puzzlesToday st') (score st') (h @ [award]) \<and>
           persisted_session JSON_parse store' = Some (puzzlesToday st', score st', h @ [award])"
    if g: "guess st \<noteq> []" and hs: "handleSubmit digest puzzles store st = Inr (store', Success, st')"
    for store' st'
  proof -
    from handleSubmit_success [OF g idle hs] obtain p where
      p: "currentPuzzle_of puzzles st = Some p" and c: "isCorrect digest (guess st) p"
      by auto
    let ?a = "pointsEarned_of (showHint st) (attempts st)"
    from handleSubmit_completion [OF assms(1) inv g p c] hs h
    have s': "store' = store\<lparr>gchq_score := Some (Number_toString (score st + ?a)),
                  gchq_history := Some (JSON_stringify (h @ [?a])),
                  gchq_puzzles_today := Some (Number_toString (puzzlesToday st + 1))\<rparr>"
      and t': "st' = st\<lparr>score := score st + ?a,
               scoreHistory := Scores (h @ [?a]),
               puzzlesToday := puzzlesToday st + 1,
               guess := [], showHint := False, attempts := 0, status := Idle,
               gameState := (if 5 \<le> puzzlesToday st + 1 then Done_for_day else gameState st)\<rparr>"
      by simp_all
    have pt: "puzzlesToday st + 1 \<le> 5"
      using currentPuzzle_of_bound [OF p len] by simp
    have ok': "session_ok (puzzlesToday st + 1) (score st + ?a) (h @ [?a])"
      by (rule session_ok_append [OF ok pointsEarned_of_award])
    have "persisted_session JSON_parse store' = Some (puzzlesToday st + 1, score st + ?a, h @ [?a])"
      unfolding s' by (rule persisted_session_written [OF assms(1) ok' pt])
    with ok' show ?thesis
      using h pointsEarned_of_award [of "showHint st" "attempts st"] by (simp add: t')
  qed
  show ?thesis
    using h ok ps step by blast
qed

lemma masterPuzzleList_sample: "masterPuzzleList sample_pool = [4, 2, 1, 6, 7, 3, 5]"
  by (simp add: masterPuzzleList_def getMasterPuzzleList_sample)

lemma reachable_first_guess:
  "reachable JSON_parse_written units_digest sample_pool
     (reset_storage ''Mon Mar 11 2024'') first_guess_app"
proof -
  let ?R = "reachable JSON_parse_written units_digest sample_pool"
  define st1 where "st1 = initial_app\<lparr>todaysPuzzles := todaysIds_of 3 (masterPuzzleList sample_pool),
      puzzlesToday := 0, score := 0, scoreHistory := Scores [], gameState := gameState initial_app\<rparr>"
  have n: "JSON_parse_written (history_text empty_storage) = Some Falsy_value"
    by (simp add: history_text_def empty_storage_def JSON_parse_written_def)
  have d: "gchq_date empty_storage \<noteq> Some ''Mon Mar 11 2024''"
    by (simp add: empty_storage_def)
  have ld: "load JSON_parse_written ''Mon Mar 11 2024'' (todaysIds_of 3 (masterPuzzleList sample_pool))
      empty_storage initial_app = Inr (reset_storage ''Mon Mar 11 2024'', st1)"
    unfolding st1_def
    by (rule load_reset [of JSON_parse_written empty_storage Falsy_value, OF n d])
  have "?R empty_storage initial_app" by (rule reachable.start)
  then have "?R (reset_storage ''Mon Mar 11 2024'') st1"
    using ld by (rule reachable.loaded)
  then have "?R (reset_storage ''Mon Mar 11 2024'') (st1\<lparr>gameState := Playing\<rparr>)"
    by (rule reachable.screen)
  then have "?R (reset_storage ''Mon Mar 11 2024'') (st1\<lparr>gameState := Playing\<rparr>\<lparr>guess := ''A b''\<rparr>)"
    by (rule reachable.typed)
  moreover have "st1\<lparr>gameState := Playing\<rparr>\<lparr>guess := ''A b''\<rparr> = first_guess_app"
    by (simp add: st1_def first_guess_app_def initial_app_def masterPuzzleList_sample
        todaysIds_of_sample)
  ultimately show ?thesis by simp
qed

lemma cleanGuess_ab: "cleanGuess_of ''A b'' = ''ab''"
  by (simp add: cleanGuess_of_def toLowerCase_def toLowerCase_unit_def is_whitespace_def char_eval)

lemma hashGuess_ab: "hashGuess units_digest ''ab'' = ''6162''"
  by (simp add: hashGuess_def units_digest_def hex_byte_def hex_digit_def)

lemma handleSubmit_first_guess:
  "handleSubmit units_digest sample_pool (reset_storage ''Mon Mar 11 2024'') first_guess_app =
     Inr ((reset_storage ''Mon Mar 11 2024'')\<lparr>gchq_score := Some ''100'',
             gchq_history := Some ''[100]'', gchq_puzzles_today := Some ''1''\<rparr>,
          Success,
          first_guess_app\<lparr>score := 100, scoreHistory := Scores [100], puzzlesToday := 1,
             guess := []\<rparr>)"
  by (simp add: handleSubmit_def first_guess_app_def initial_app_def sample_pool_def
      plain_puzzle_def hashed_puzzle_def currentPuzzle_of_def index_at_def isCorrect_def
      truthy_def cleanGuess_ab hashGuess_ab pointsEarned_of_def js_add_exact Number_toString_def
      JSON_stringify_def string_of_nat.simps digit_char_def char_eval Let_def)

theorem session_invariant_witness:
  "reads_back JSON_parse_written \<and>
   reachable JSON_parse_written units_digest sample_pool
     (reset_storage ''Mon Mar 11 2024'') first_guess_app \<and>
   guess first_guess_app \<noteq> [] \<and>
   (\<exists>store' st'.
      handleSubmit units_digest sample_pool (reset_storage ''Mon Mar 11 2024'') first_guess_app =
        Inr (store', Success, st') \<and>
      scoreHistory st' = Scores [100] \<and> score st' = 100 \<and> puzzlesToday st' = 1 \<and>
      session_ok 1 100 [100] \<and>
      persisted_session JSON_parse_written store' = Some (1, 100, [100])) \<and>
   persisted_session JSON_parse_written (reset_storage ''Mon Mar 11 2024'') = Some (0, 0, [])"
proof -
  let ?store = "reset_storage ''Mon Mar 11 2024''"
  let ?store' = "?store\<lparr>gchq_score := Some ''100'',
             gchq_history := Some ''[100]'', gchq_puzzles_today := Some ''1''\<rparr>"
  let ?st' = "first_guess_app\<lparr>score := 100, scoreHistory := Scores [100], puzzlesToday := 1,
             guess := []\<rparr>"
  have g: "guess first_guess_app \<noteq> []" and f: "scoreHistory first_guess_app = Scores []"
    "score first_guess_app = 0" "puzzlesToday first_guess_app = 0"
    by (simp_all add: first_guess_app_def initial_app_def)
  note si = session_invariant [OF reads_back_written reachable_first_guess]
  from si have base: "persisted_session JSON_parse_written ?store = Some (0, 0, [])"
    using f by auto
  from si g handleSubmit_first_guess
  have "\<exists>h award. scoreHistory first_guess_app = Scores h \<and> award \<in> set [0, 25, 50, 75, 100] \<and>
           scoreHistory ?st' = Scores (h @ [award]) \<and> score ?st' = score first_guess_app + award \<and>
           puzzlesToday ?st' = puzzlesToday first_guess_app + 1 \<and>
           session_ok (puzzlesToday ?st') (score ?st') (h @ [award]) \<and>
           persisted_session JSON_parse_written ?store' = Some (puzzlesToday ?st', score ?st', h @ [award])"
    by blast
  then have step: "session_ok 1 100 [100] \<and>
      persisted_session JSON_parse_written ?store' = Some (1, 100, [100])"
    using f by auto
  show ?thesis
    using reads_back_written reachable_first_guess g handleSubmit_first_guess step base
    by auto
qed

section \<open>An event between a submission and its timers\<close>

text \<open>
  \<open>handleSubmit\<close> is the three parts of the handler run one after the other, with no
  event between them.
\<close>

lemma handleSubmit_phases:
  "handleSubmit digest puzzles store st =
     (case submit_begin digest puzzles st of
        Inl e \<Rightarrow> Inl e
      | Inr (st1, None) \<Rightarrow> Inr (store, status st, st)
      | Inr (st1, Some closure) \<Rightarrow>
          (case submit_resolve closure store st1 of
             Inl e \<Rightarrow> Inl e
           | Inr (store', st2) \<Rightarrow> Inr (store', status st2, submit_settle closure st2)))"
  by (simp add: handleSubmit_def submit_begin_def submit_resolve_def submit_settle_def Let_def
      split: option.splits history.splits)

text \<open>
  Whatever the state is when the first timer fires, the award written is that of the
  hint flag and of the attempts in the closure.
\<close>

lemma submit_resolve_award:
  assumes "submit_resolve (captured, True) store live = Inr (store', live')"
  shows "\<exists>h. scoreHistory captured = Scores h \<and>
      gchq_history store' =
        Some (JSON_stringify (h @ [pointsEarned_of (showHint captured) (attempts captured)])) \<and>
      live' = live\<lparr>status := Success\<rparr>"
  using assms by (auto simp: submit_resolve_def Let_def split: history.splits)

text \<open>The submission does not read the hint flag before its timers.\<close>

lemma submit_begin_showHint:
  assumes "submit_begin digest puzzles st = Inr (st\<lparr>status := Checking\<rparr>, Some (st, correct))"
  shows "submit_begin digest puzzles (st\<lparr>showHint := b\<rparr>) =
     Inr (st\<lparr>showHint := b, status := Checking\<rparr>, Some (st\<lparr>showHint := b\<rparr>, correct))"
  using assms
  by (auto simp: submit_begin_def currentPuzzle_of_def split: if_splits option.splits)

lemma submit_begin_closure:
  assumes "submit_begin digest puzzles st = Inr (st', Some (captured, correct))"
  shows "captured = st \<and> st' = st\<lparr>status := Checking\<rparr>"
  using assms by (auto simp: submit_begin_def split: if_splits option.splits)

lemma submit_begin_none:
  assumes "submit_begin digest puzzles st = Inr (st', None)"
  shows "st' = st"
  using assms by (auto simp: submit_begin_def split: if_splits option.splits)

lemma reachable_shown:
  assumes "reachable JSON_parse digest puzzles store st" and "b \<or> b = showHint st"
  shows "reachable JSON_parse digest puzzles store (st\<lparr>showHint := b\<rparr>)"
proof (cases b)
  case True
  then show ?thesis using reachable.hinted [OF assms(1)] by simp
next
  case False
  with assms(2) have "st\<lparr>showHint := b\<rparr> = st" by simp
  then show ?thesis using assms(1) by simp
qed

text \<open>What the two timers leave after a correct guess is the result of \<open>handleSubmit\<close>.\<close>

lemma settled_success:
  assumes r: "reachable JSON_parse digest puzzles store0 captured" and pl: "gameState captured = Playing"
    and b: "submit_begin digest puzzles captured =
          Inr (captured\<lparr>status := Checking\<rparr>, Some (captured, True))"
    and s: "submit_resolve (captured, True) store0 (captured\<lparr>status := Checking\<rparr>) =
                Inr (store, captured\<lparr>status := Success\<rparr>)"
  shows "reachable JSON_parse digest puzzles store
     (submit_settle (captured, True) (captured\<lparr>status := Success, showHint := hintShown\<rparr>))"
proof -
  have e: "submit_settle (captured, True) (captured\<lparr>status := Success, showHint := hintShown\<rparr>) =
      submit_settle (captured, True) (captured\<lparr>status := Success\<rparr>)"
    using s by (auto simp: submit_settle_def submit_resolve_def Let_def split: history.splits)
  have "handleSubmit digest puzzles store0 captured =
      Inr (store, Success, submit_settle (captured, True) (captured\<lparr>status := Success\<rparr>))"
    by (simp add: handleSubmit_phases b s)
  from reachable.submitted [OF r pl this] show ?thesis
    by (simp add: e)
qed

lemma settled_error:
  assumes r: "reachable JSON_parse digest puzzles store captured" and pl: "gameState captured = Playing"
    and b: "submit_begin digest puzzles captured =
          Inr (captured\<lparr>status := Checking\<rparr>, Some (captured, False))"
    and h: "hintShown \<or> hintShown = showHint captured"
  shows "reachable JSON_parse digest puzzles store
     (submit_settle (captured, False)
        (captured\<lparr>status := Error, attempts := js_add (attempts captured) 1,
                     showHint := hintShown, guess := g\<rparr>))"
proof -
  let ?c = "captured\<lparr>showHint := hintShown\<rparr>"
  have r': "reachable JSON_parse digest puzzles store ?c"
    by (rule reachable_shown [OF r h])
  have b': "submit_begin digest puzzles ?c =
      Inr (?c\<lparr>status := Checking\<rparr>, Some (?c, False))"
    using submit_begin_showHint [OF b, of hintShown] by simp
  have "handleSubmit digest puzzles store ?c =
      Inr (store, Error, ?c\<lparr>attempts := js_add (attempts captured) 1, status := Idle, guess := []\<rparr>)"
    by (simp add: handleSubmit_phases b' submit_resolve_def submit_settle_def)
  from reachable.submitted [OF r' _ this] pl
  have "reachable JSON_parse digest puzzles store
      (?c\<lparr>attempts := js_add (attempts captured) 1, status := Idle, guess := []\<rparr>)"
    by simp
  moreover have "submit_settle (captured, False)
        (captured\<lparr>status := Error, attempts := js_add (attempts captured) 1,
                     showHint := hintShown, guess := g\<rparr>) =
      ?c\<lparr>attempts := js_add (attempts captured) 1, status := Idle, guess := []\<rparr>"
    by (simp add: submit_settle_def)
  ultimately show ?thesis by simp
qed

lemma flight_inv_first:
  "flight_inv JSON_parse digest puzzles store st (Some (First_timer (captured, correct))) =
     (reachable JSON_parse digest puzzles store captured \<and> gameState captured = Playing \<and>
      submit_begin digest puzzles captured =
        Inr (captured\<lparr>status := Checking\<rparr>, Some (captured, correct)) \<and>
      (\<exists>b. (b \<or> b = showHint captured) \<and> st = captured\<lparr>status := Checking, showHint := b\<rparr>))"
  by (simp only: flight_inv.simps)

lemma flight_inv_second_correct:
  "flight_inv JSON_parse digest puzzles store st (Some (Second_timer (captured, True))) =
     (\<exists>store0 b.
        reachable JSON_parse digest puzzles store0 captured \<and> gameState captured = Playing \<and>
        submit_begin digest puzzles captured =
          Inr (captured\<lparr>status := Checking\<rparr>, Some (captured, True)) \<and>
        (b \<or> b = showHint captured) \<and>
        submit_resolve (captured, True) store0 (captured\<lparr>status := Checking\<rparr>) =
          Inr (store, captured\<lparr>status := Success\<rparr>) \<and>
        st = captured\<lparr>status := Success, showHint := b\<rparr>)"
  by (simp only: flight_inv.simps if_True) blast

lemma flight_inv_second_wrong:
  "flight_inv JSON_parse digest puzzles store st (Some (Second_timer (captured, False))) =
     (\<exists>b g.
        reachable JSON_parse digest puzzles store captured \<and> gameState captured = Playing \<and>
        submit_begin digest puzzles captured =
          Inr (captured\<lparr>status := Checking\<rparr>, Some (captured, False)) \<and>
        (b \<or> b = showHint captured) \<and>
        st = captured\<lparr>status := Error, attempts := js_add (attempts captured) 1,
               showHint := b, guess := g\<rparr>)"
  by (simp only: flight_inv.simps if_False) blast

lemma flight_inv_store:
  assumes "flight_inv JSON_parse digest puzzles store st pending"
  shows "\<exists>st0. reachable JSON_parse digest puzzles store st0"
proof (cases pending)
  case None
  with assms show ?thesis by auto
next
  case (Some t)
  show ?thesis
  proof (cases t)
    case (First_timer c)
    obtain captured correct where c: "c = (captured, correct)" by (cases c)
    from assms show ?thesis
      unfolding Some First_timer c flight_inv_first by blast
  next
    case (Second_timer c)
    obtain captured correct where c: "c = (captured, correct)" by (cases c)
    show ?thesis
    proof (cases correct)
      case True
      then have ct: "correct = True" by simp
      from assms obtain store0 b where
        r: "reachable JSON_parse digest puzzles store0 captured" and pl: "gameState captured = Playing"
        and sb: "submit_begin digest puzzles captured =
          Inr (captured\<lparr>status := Checking\<rparr>, Some (captured, True))"
        and sr: "submit_resolve (captured, True) store0 (captured\<lparr>status := Checking\<rparr>) =
          Inr (store, captured\<lparr>status := Success\<rparr>)"
        unfolding Some Second_timer c ct flight_inv_second_correct by blast
      from settled_success [OF r pl sb sr] show ?thesis by blast
    next
      case False
      then have cf: "correct = False" by simp
      from assms show ?thesis
        unfolding Some Second_timer c cf flight_inv_second_wrong by blast
    qed
  qed
qed

lemma flight_inv_typed:
  assumes fi: "flight_inv JSON_parse digest puzzles store st pending"
    and s: "status st \<noteq> Success" and k: "status st \<noteq> Checking"
  shows "flight_inv JSON_parse digest puzzles store (st\<lparr>guess := text_typed\<rparr>) pending"
proof (cases pending)
  case None
  with fi show ?thesis by (simp add: reachable.typed)
next
  case (Some t)
  show ?thesis
  proof (cases t)
    case (First_timer c)
    obtain captured correct where c: "c = (captured, correct)" by (cases c)
    from fi obtain b where "st = captured\<lparr>status := Checking, showHint := b\<rparr>"
      unfolding Some First_timer c flight_inv_first by blast
    then have "status st = Checking" by simp
    with k show ?thesis by simp
  next
    case (Second_timer c)
    obtain captured correct where c: "c = (captured, correct)" by (cases c)
    show ?thesis
    proof (cases correct)
      case True
      then have ct: "correct = True" by simp
      from fi obtain b where "st = captured\<lparr>status := Success, showHint := b\<rparr>"
        unfolding Some Second_timer c ct flight_inv_second_correct by blast
      then have "status st = Success" by simp
      with s show ?thesis by simp
    next
      case False
      then have cf: "correct = False" by simp
      from fi obtain b g where
        r: "reachable JSON_parse digest puzzles store captured" and pl: "gameState captured = Playing"
        and sb: "submit_begin digest puzzles captured =
          Inr (captured\<lparr>status := Checking\<rparr>, Some (captured, False))"
        and hb: "b \<or> b = showHint captured"
        and st: "st = captured\<lparr>status := Error, attempts := js_add (attempts captured) 1,
               showHint := b, guess := g\<rparr>"
        unfolding Some Second_timer c cf flight_inv_second_wrong by blast
      have "st\<lparr>guess := text_typed\<rparr> = captured\<lparr>status := Error,
          attempts := js_add (attempts captured) 1, showHint := b, guess := text_typed\<rparr>"
        unfolding st by simp
      with r pl sb hb show ?thesis
        unfolding Some Second_timer c cf flight_inv_second_wrong by blast
    qed
  qed
qed

lemma flight_inv_hinted:
  assumes fi: "flight_inv JSON_parse digest puzzles store st pending"
  shows "flight_inv JSON_parse digest puzzles store (setShowHint_true st) pending"
proof (cases pending)
  case None
  with fi show ?thesis by (simp add: setShowHint_true_def reachable.hinted)
next
  case (Some t)
  have T: "True \<or> True = showHint x" for x by simp
  show ?thesis
  proof (cases t)
    case (First_timer c)
    obtain captured correct where c: "c = (captured, correct)" by (cases c)
    from fi obtain b where
      r: "reachable JSON_parse digest puzzles store captured" and pl: "gameState captured = Playing"
      and sb: "submit_begin digest puzzles captured =
        Inr (captured\<lparr>status := Checking\<rparr>, Some (captured, correct))"
      and st: "st = captured\<lparr>status := Checking, showHint := b\<rparr>"
      unfolding Some First_timer c flight_inv_first by blast
    have "setShowHint_true st = captured\<lparr>status := Checking, showHint := True\<rparr>"
      unfolding st by (simp add: setShowHint_true_def)
    with r pl sb T [of captured] show ?thesis
      unfolding Some First_timer c flight_inv_first by blast
  next
    case (Second_timer c)
    obtain captured correct where c: "c = (captured, correct)" by (cases c)
    show ?thesis
    proof (cases correct)
      case True
      then have ct: "correct = True" by simp
      from fi obtain store0 b where
        r: "reachable JSON_parse digest puzzles store0 captured" and pl: "gameState captured = Playing"
        and sb: "submit_begin digest puzzles captured =
          Inr (captured\<lparr>status := Checking\<rparr>, Some (captured, True))"
        and sr: "submit_resolve (captured, True) store0 (captured\<lparr>status := Checking\<rparr>) =
          Inr (store, captured\<lparr>status := Success\<rparr>)"
        and st: "st = captured\<lparr>status := Success, showHint := b\<rparr>"
        unfolding Some Second_timer c ct flight_inv_second_correct by blast
      have "setShowHint_true st = captured\<lparr>status := Success, showHint := True\<rparr>"
        unfolding st by (simp add: setShowHint_true_def)
      with r pl sb sr T [of captured] show ?thesis
        unfolding Some Second_timer c ct flight_inv_second_correct by blast
    next
      case False
      then have cf: "correct = False" by simp
      from fi obtain b g where
        r: "reachable JSON_parse digest puzzles store captured" and pl: "gameState captured = Playing"
        and sb: "submit_begin digest puzzles captured =
          Inr (captured\<lparr>status := Checking\<rparr>, Some (captured, False))"
        and st: "st = captured\<lparr>status := Error, attempts := js_add (attempts captured) 1,
               showHint := b, guess := g\<rparr>"
        unfolding Some Second_timer c cf flight_inv_second_wrong by blast
      have "setShowHint_true st = captured\<lparr>status := Error,
          attempts := js_add (attempts captured) 1, showHint := True, guess := g\<rparr>"
        unfolding st by (simp add: setShowHint_true_def)
      with r pl sb T [of captured] show ?thesis
        unfolding Some Second_timer c cf flight_inv_second_wrong by blast
    qed
  qed
qed

lemma flight_inv_submitted:
  assumes r: "reachable JSON_parse digest puzzles store st" and pl: "gameState st = Playing"
    and sb: "submit_begin digest puzzles st = Inr (st', closure)"
  shows "flight_inv JSON_parse digest puzzles store st' (map_option First_timer closure)"
proof (cases closure)
  case None
  with sb have "st' = st" by (simp add: submit_begin_none)
  with r None show ?thesis by simp
next
  case (Some c)
  obtain captured correct where c: "c = (captured, correct)" by (cases c)
  from submit_begin_closure [of digest puzzles st st' captured correct] sb Some c
  have e: "captured = st" "st' = st\<lparr>status := Checking\<rparr>" by simp_all
  have sb': "submit_begin digest puzzles st = Inr (st\<lparr>status := Checking\<rparr>, Some (st, correct))"
    using sb Some c e by simp
  have x: "st\<lparr>status := Checking\<rparr> = st\<lparr>status := Checking, showHint := showHint st\<rparr>"
    by simp
  have h: "showHint st \<or> showHint st = showHint st" by simp
  have "flight_inv JSON_parse digest puzzles store (st\<lparr>status := Checking\<rparr>)
      (Some (First_timer (st, correct)))"
    unfolding flight_inv_first using r pl sb' x h by blast
  then show ?thesis
    using Some c e by simp
qed

lemma flight_inv_first_timer:
  assumes fi: "flight_inv JSON_parse digest puzzles store st (Some (First_timer closure))"
    and sr: "submit_resolve closure store st = Inr (store', st')"
  shows "flight_inv JSON_parse digest puzzles store' st' (Some (Second_timer closure))"
proof -
  obtain captured correct where c: "closure = (captured, correct)" by (cases closure)
  from fi obtain b where
    r: "reachable JSON_parse digest puzzles store captured" and pl: "gameState captured = Playing"
    and sb: "submit_begin digest puzzles captured =
          Inr (captured\<lparr>status := Checking\<rparr>, Some (captured, correct))"
    and hb: "b \<or> b = showHint captured" and st: "st = captured\<lparr>status := Checking, showHint := b\<rparr>"
    unfolding c flight_inv_first by blast
  show ?thesis
  proof (cases correct)
    case True
    then have ct: "correct = True" by simp
    from sr have a: "submit_resolve (captured, True) store (captured\<lparr>status := Checking\<rparr>) =
                Inr (store', captured\<lparr>status := Success\<rparr>)"
      and b: "st' = captured\<lparr>status := Success, showHint := b\<rparr>"
      unfolding c ct st
      by (auto simp: submit_resolve_def Let_def split: history.splits)
    from r pl sb hb a b show ?thesis
      unfolding c ct flight_inv_second_correct by blast
  next
    case False
    then have cf: "correct = False" by simp
    from sr have a: "store' = store"
      and b: "st' = captured\<lparr>status := Error, attempts := js_add (attempts captured) 1,
                     showHint := b, guess := guess captured\<rparr>"
      unfolding c cf st by (auto simp: submit_resolve_def)
    from r pl sb hb b show ?thesis
      unfolding c cf flight_inv_second_wrong a by blast
  qed
qed

lemma flight_inv_second_timer:
  assumes fi: "flight_inv JSON_parse digest puzzles store st (Some (Second_timer closure))"
  shows "reachable JSON_parse digest puzzles store (submit_settle closure st)"
proof -
  obtain captured correct where c: "closure = (captured, correct)" by (cases closure)
  show ?thesis
  proof (cases correct)
    case True
    then have ct: "correct = True" by simp
    from fi obtain store0 b where
      r: "reachable JSON_parse digest puzzles store0 captured" and pl: "gameState captured = Playing"
      and sb: "submit_begin digest puzzles captured =
          Inr (captured\<lparr>status := Checking\<rparr>, Some (captured, True))"
      and sr: "submit_resolve (captured, True) store0 (captured\<lparr>status := Checking\<rparr>) =
          Inr (store, captured\<lparr>status := Success\<rparr>)"
      and st: "st = captured\<lparr>status := Success, showHint := b\<rparr>"
      unfolding c ct flight_inv_second_correct by blast
    show ?thesis
      unfolding c ct st by (rule settled_success [OF r pl sb sr])
  next
    case False
    then have cf: "correct = False" by simp
    from fi obtain b g where
      r: "reachable JSON_parse digest puzzles store captured" and pl: "gameState captured = Playing"
      and sb: "submit_begin digest puzzles captured =
          Inr (captured\<lparr>status := Checking\<rparr>, Some (captured, False))"
      and hb: "b \<or> b = showHint captured"
      and st: "st = captured\<lparr>status := Error, attempts := js_add (attempts captured) 1,
               showHint := b, guess := g\<rparr>"
      unfolding c cf flight_inv_second_wrong by blast
    show ?thesis
      unfolding c cf st by (rule settled_error [OF r pl sb hb])
  qed
qed

lemma running_flight_inv:
  assumes "running JSON_parse digest puzzles store st pending"
  shows "flight_inv JSON_parse digest puzzles store st pending"
  using assms
proof (induction rule: running.induct)
  case start
  show ?case by (simp only: flight_inv.simps) (rule reachable.start)
next
  case (loaded store st pending todayStr dayIndex store' st')
  from flight_inv_store [OF loaded.IH] obtain st0 where
    "reachable JSON_parse digest puzzles store st0" ..
  from reachable.loaded [OF this loaded.hyps(2)] show ?case
    by (simp only: flight_inv.simps)
next
  case (screen store st g)
  then show ?case by (simp only: flight_inv.simps) (rule reachable.screen)
next
  case (typed store st pending text_typed)
  from flight_inv_typed [OF typed.IH typed.hyps(2,3)] show ?case .
next
  case (hinted store st pending)
  from flight_inv_hinted [OF hinted.IH] show ?case .
next
  case (submitted store st st' closure)
  from submitted.IH have "reachable JSON_parse digest puzzles store st"
    by (simp only: flight_inv.simps)
  from flight_inv_submitted [OF this submitted.hyps(2,3)] show ?case .
next
  case (first_timer store st closure store' st')
  from flight_inv_first_timer [OF first_timer.IH first_timer.hyps(2)] show ?case .
next
  case (second_timer store st closure)
  from flight_inv_second_timer [OF second_timer.IH] show ?case
    by (simp only: flight_inv.simps)
qed

text \<open>
  A run that has no timer waiting is in a state of \<open>reachable\<close>: what holds of the
  states between submissions holds of every run whenever its timers have fired. And
  every state of \<open>reachable\<close> is the state of such a run.
\<close>

lemma running_settled:
  "running JSON_parse digest puzzles store st None \<Longrightarrow>
   reachable JSON_parse digest puzzles store st"
  using running_flight_inv [of JSON_parse digest puzzles store st None] by simp

lemma reachable_running:
  assumes "reachable JSON_parse digest puzzles store st"
  shows "running JSON_parse digest puzzles store st None \<and> status st = Idle"
  using assms
proof (induction rule: reachable.induct)
  case start
  have "status initial_app = Idle" by (simp add: initial_app_def)
  with running.start show ?case by blast
next
  case (loaded store st todayStr dayIndex store' st')
  from loaded.hyps(2) have "status st' = Idle"
    by (auto simp: load_def Let_def initial_app_def split: option.splits if_splits)
  with running.loaded [OF conjunct1 [OF loaded.IH] loaded.hyps(2)] show ?case by simp
next
  case (screen store st g)
  then show ?case by (simp add: running.screen)
next
  case (typed store st text_typed)
  then show ?case using running.typed [of JSON_parse digest puzzles store st None text_typed] by simp
next
  case (hinted store st)
  then show ?case
    using running.hinted [of JSON_parse digest puzzles store st None]
    by (simp add: setShowHint_true_def)
next
  case (submitted store st store' shown st')
  from submitted.IH have run: "running JSON_parse digest puzzles store st None"
    and idle: "status st = Idle" by simp_all
  from submitted.hyps(3) obtain st1 closure where
    sb: "submit_begin digest puzzles st = Inr (st1, closure)"
    by (auto simp: handleSubmit_phases split: sum.splits)
  note r1 = running.submitted [OF run submitted.hyps(2) sb]
  show ?case
  proof (cases closure)
    case None
    with submitted.hyps(3) sb have "store' = store" "st' = st"
      by (simp_all add: handleSubmit_phases)
    with run idle show ?thesis by simp
  next
    case (Some c)
    from submitted.hyps(3) sb Some obtain st2 where
      sr: "submit_resolve c store st1 = Inr (store', st2)" and st': "st' = submit_settle c st2"
      by (auto simp: handleSubmit_phases split: sum.splits)
    from r1 Some have "running JSON_parse digest puzzles store st1 (Some (First_timer c))"
      by simp
    from running.second_timer [OF running.first_timer [OF this sr]]
    have "running JSON_parse digest puzzles store' st' None"
      by (simp add: st')
    moreover have "status st' = Idle"
      using submitted.hyps(3) idle
      by (auto simp: handleSubmit_def Let_def split: if_splits option.splits history.splits)
    ultimately show ?thesis by simp
  qed
qed

text \<open>
  So the invariant of the session holds of every run, with events between a submission
  and its timers or without, whenever no timer is waiting.
\<close>

lemma running_session_inv:
  assumes "reads_back JSON_parse" and "running JSON_parse digest puzzles store st None"
  shows "session_inv JSON_parse store st"
  by (rule reachable_session_inv [OF assms(1) running_settled [OF assms(2)]])

text \<open>
  The first guess of a day, submitted with the hint hidden, and the hint revealed while
  the guess is checked: a run of the page.
\<close>

lemma first_guess_begin:
  "submit_begin units_digest sample_pool first_guess_app =
     Inr (first_guess_app\<lparr>status := Checking\<rparr>, Some (first_guess_app, True))"
  by (simp add: submit_begin_def first_guess_app_def initial_app_def sample_pool_def
      plain_puzzle_def hashed_puzzle_def currentPuzzle_of_def index_at_def isCorrect_def
      truthy_def cleanGuess_ab hashGuess_ab)

lemma running_hint_while_checking:
  "running JSON_parse_written units_digest sample_pool (reset_storage ''Mon Mar 11 2024'')
     hint_while_checking (Some (First_timer (first_guess_app, True)))"
proof -
  from reachable_running [OF reachable_first_guess]
  have r: "running JSON_parse_written units_digest sample_pool
      (reset_storage ''Mon Mar 11 2024'') first_guess_app None"
    by simp
  have pl: "gameState first_guess_app = Playing"
    by (simp add: first_guess_app_def)
  from running.submitted [OF r pl first_guess_begin]
  have "running JSON_parse_written units_digest sample_pool (reset_storage ''Mon Mar 11 2024'')
      (first_guess_app\<lparr>status := Checking\<rparr>) (Some (First_timer (first_guess_app, True)))"
    by simp
  from running.hinted [OF this] show ?thesis
    by (simp add: hint_while_checking_def)
qed

text \<open>
  Claim C7 at a hint revealed while the guess is checked. In a state a player can reach,
  the first guess of a day is submitted with the hint hidden and no attempt made, and it
  is correct. Before the first timer fires the player reveals the hint, which is a run
  of the page: the hint is shown and the screen gives the puzzle the value 0. The first
  timer still reads the flag of the render that created the handler: the award it
  writes to the storage is 100, with the hint shown when the puzzle is resolved, and the
  second timer puts 100 in the score and in the history. The claim gives 0 to a puzzle
  whose hint was revealed.
\<close>

theorem late_hint_awarded:
  "reachable JSON_parse_written units_digest sample_pool
     (reset_storage ''Mon Mar 11 2024'') first_guess_app \<and>
   running JSON_parse_written units_digest sample_pool (reset_storage ''Mon Mar 11 2024'')
     hint_while_checking (Some (First_timer (first_guess_app, True))) \<and>
   \<not> showHint first_guess_app \<and> attempts first_guess_app = 0 \<and>
   submit_begin units_digest sample_pool first_guess_app =
     Inr (first_guess_app\<lparr>status := Checking\<rparr>, Some (first_guess_app, True)) \<and>
   showHint hint_while_checking \<and> currentPuzzleValue hint_while_checking = 0 \<and>
   submit_resolve (first_guess_app, True) (reset_storage ''Mon Mar 11 2024'') hint_while_checking =
     Inr ((reset_storage ''Mon Mar 11 2024'')\<lparr>gchq_score := Some ''100'',
             gchq_history := Some ''[100]'', gchq_puzzles_today := Some ''1''\<rparr>,
          hint_while_checking\<lparr>status := Success\<rparr>) \<and>
   showHint (hint_while_checking\<lparr>status := Success\<rparr>) \<and>
   submit_settle (first_guess_app, True) (hint_while_checking\<lparr>status := Success\<rparr>) =
     first_guess_app\<lparr>score := 100, scoreHistory := Scores [100], puzzlesToday := 1, guess := []\<rparr>"
proof -
  note b = first_guess_begin
  have h: "showHint hint_while_checking" "currentPuzzleValue hint_while_checking = 0"
    "showHint (hint_while_checking\<lparr>status := Success\<rparr>)"
    by (simp_all add: hint_while_checking_def setShowHint_true_def currentPuzzleValue_def)
  have r: "submit_resolve (first_guess_app, True) (reset_storage ''Mon Mar 11 2024'') hint_while_checking =
     Inr ((reset_storage ''Mon Mar 11 2024'')\<lparr>gchq_score := Some ''100'',
             gchq_history := Some ''[100]'', gchq_puzzles_today := Some ''1''\<rparr>,
          hint_while_checking\<lparr>status := Success\<rparr>)"
    by (simp add: submit_resolve_def first_guess_app_def initial_app_def pointsEarned_of_def
        js_add_exact Number_toString_def JSON_stringify_def string_of_nat.simps digit_char_def
        char_eval Let_def)
  have s: "submit_settle (first_guess_app, True) (hint_while_checking\<lparr>status := Success\<rparr>) =
     first_guess_app\<lparr>score := 100, scoreHistory := Scores [100], puzzlesToday := 1, guess := []\<rparr>"
    by (simp add: submit_settle_def hint_while_checking_def setShowHint_true_def
        first_guess_app_def initial_app_def pointsEarned_of_def js_add_exact Let_def)
  have f: "\<not> showHint first_guess_app" "attempts first_guess_app = 0"
    by (simp_all add: first_guess_app_def initial_app_def)
  show ?thesis
    using reachable_first_guess running_hint_while_checking f b h r s by simp
qed

end
